theory Spec2Isabelle
  imports Main "HOL-Library.Word"
begin

section \<open>The execute entry point of the FIL backend (src/api.cu)\<close>

text \<open>
  \<^verbatim>\<open>TRITONBACKEND_ModelInstanceExecute\<close> (api.cu, lines 163-294) drives helpers that are
  declared in headers outside the source tree: batch planning, response construction,
  output staging, prediction, synchronisation, response sending, statistics and request
  release. The embedding keeps the control flow of the entry point as it is written and
  takes the helpers as an environment: every helper call is appended to a trace, and
  the environment decides, from the calls made so far and the call itself, whether the
  helper raises a \<^verbatim>\<open>TritonException\<close>. A call is recorded in the trace also when it
  raises. Reading the clock, \<^verbatim>\<open>log_error\<close> and the accessors \<^verbatim>\<open>get_raft_handle\<close>,
  \<^verbatim>\<open>predict_proba\<close> and \<^verbatim>\<open>num_class\<close> are taken not to raise. Exceptions of other
  types are outside the model: no handler of the entry point catches them.
\<close>

subsection \<open>Data\<close>

type_synonym int64 = "64 word"
type_synonym timestamp = "64 word"

text \<open>A \<^verbatim>\<open>TRITONBACKEND_Request*\<close> handle.\<close>
type_synonym request = nat

text \<open>A \<^verbatim>\<open>TRITONSERVER_Error*\<close>: an error code and a message.\<close>
datatype triton_error = TritonError nat string

fun what :: "triton_error \<Rightarrow> string" where
  "what (TritonError c m) = m"

text \<open>
  Modelled from the spec: \<^verbatim>\<open>construct_responses\<close> is declared outside the source tree;
  the router "constructs one response object per covered request", so a response is
  identified by the request it answers.
\<close>
datatype response = ResponseFor request

fun request_of :: "response \<Rightarrow> request" where
  "request_of (ResponseFor r) = r"

definition construct_responses :: "request list \<Rightarrow> response list" where
  "construct_responses batch_requests = map ResponseFor batch_requests"

datatype memory_type = HostMemory | DeviceMemory

text \<open>The fields of \<^verbatim>\<open>ModelState\<close> that the entry point reads.\<close>
record model_state =
  predict_proba :: bool
  num_class :: int64

text \<open>
  The fields of an input batch that the entry point reads: \<^verbatim>\<open>batch.data\<close> (an opaque
  staged tensor, here a handle), \<^verbatim>\<open>batch.shapes\<close> and \<^verbatim>\<open>batch.extent\<close>
  (\<^verbatim>\<open>first\<close>, \<^verbatim>\<open>second\<close>).
\<close>
record batch =
  data :: nat
  shapes :: "int64 list list"
  extent :: "nat \<times> nat"

text \<open>
  The output batch returned by \<^verbatim>\<open>get_output_batch\<close>, identified by the responses and
  the output shapes it was staged for.
\<close>
datatype output_batch = OutputBatch "response list" "int64 list list"

text \<open>The helper calls of the entry point, with the arguments it passes.\<close>
datatype call =
    GetInstanceState
  | StateForModel
  | GetNativeMemory
  | GetInputBatches "request list" memory_type
  | ConstructResponses "request list"
  | GetOutputBatch "request list" "response list" memory_type "int64 list list"
  | Predict nat output_batch bool
  | Sync output_batch
  | SendResponses "response list"
  | SendResponsesError "response list" triton_error
  | SendErrorResponses "request list" triton_error
  | ReportStatistics "request list" bool timestamp timestamp timestamp timestamp
  | ReportStatisticsCount int64 timestamp timestamp timestamp timestamp
  | ReleaseRequests "request list"

text \<open>
  The environment of one invocation.
  \<^item> \<open>throws h c\<close>: the exception that helper call \<open>c\<close> raises after the calls \<open>h\<close>,
    if any.
  \<^item> \<open>clock n\<close>: the value of the \<open>n\<close>-th reading of \<^verbatim>\<open>steady_clock::now()\<close>.
  \<^item> \<open>model\<close>, \<open>target_memory\<close>: what \<^verbatim>\<open>StateForModel\<close> and
    \<^verbatim>\<open>get_native_memory_for_instance\<close> return.
  \<^item> \<open>planned\<close>, \<open>plan_error\<close>: the planner.
\<close>
text \<open>
  Modelled from the spec: the planner (\<^verbatim>\<open>get_input_batches\<close> and the sequence it
  returns) is declared outside the source tree, and the spec says that it "produces
  batches lazily (one at a time)", so that it may fail after some batches. \<open>planned\<close> are
  the batches that iterating over the result of \<^verbatim>\<open>get_input_batches\<close> yields, and
  \<open>plan_error\<close> is the exception raised when the next batch is asked for after them, if
  any. A planner that builds all batches at once fails in \<^verbatim>\<open>get_input_batches\<close> itself
  and has \<open>plan_error = None\<close>.
\<close>
record world =
  throws :: "call list \<Rightarrow> call \<Rightarrow> triton_error option"
  clock :: "nat \<Rightarrow> timestamp"
  model :: model_state
  target_memory :: memory_type
  planned :: "batch list"
  plan_error :: "triton_error option"

text \<open>
  The mutable state of an invocation: the trace of helper calls, the messages passed to
  \<^verbatim>\<open>log_error\<close>, the number of clock readings, and the local variables that live
  across the try blocks.
\<close>
record state =
  calls :: "call list"
  logs :: "string list"
  ticks :: nat
  total_inference_count :: int64
  responses :: "response list"
  end_request :: nat

text \<open>
  What unwinds the stack: a \<^verbatim>\<open>TritonException\<close>, which the handlers catch, or undefined
  behaviour of the C++ code (reading element 0 of an empty vector, building a vector
  from an iterator range outside the request vector), which no handler catches.
\<close>
datatype exc = TritonException triton_error | UndefinedBehaviour

type_synonym 'a result = "(exc + 'a) \<times> state"

text \<open>What the entry point gives back: the returned error pointer (\<open>None\<close> is \<^verbatim>\<open>nullptr\<close>).\<close>
datatype outcome = Returned "triton_error option" | Undefined

definition init_state :: state where
  "init_state = \<lparr>calls = [], logs = [], ticks = 0, total_inference_count = 0,
                 responses = [], end_request = 0\<rparr>"

subsection \<open>Helper calls, clock readings, guarded statistics\<close>

definition ext :: "world \<Rightarrow> call \<Rightarrow> state \<Rightarrow> unit result" where
  "ext w c s =
     ((case throws w (calls s) c of
         None \<Rightarrow> Inr ()
       | Some e \<Rightarrow> Inl (TritonException e)),
      s\<lparr>calls := calls s @ [c]\<rparr>)"

definition now :: "world \<Rightarrow> state \<Rightarrow> timestamp \<times> state" where
  "now w s = (clock w (ticks s), s\<lparr>ticks := Suc (ticks s)\<rparr>)"

text \<open>
  \<^verbatim>\<open>try { report_statistics(...); } catch (TritonException& stat_err)
  { log_error(__FILE__, __LINE__, stat_err.what()); }\<close>
\<close>
definition report_guarded :: "world \<Rightarrow> call \<Rightarrow> state \<Rightarrow> state" where
  "report_guarded w c s =
     (case ext w c s of
        (Inl (TritonException stat_err), s') \<Rightarrow> s'\<lparr>logs := logs s' @ [what stat_err]\<rparr>
      | (_, s') \<Rightarrow> s')"

subsection \<open>The output shapes of a batch (lines 190-199)\<close>

text \<open>
  The loop over \<^verbatim>\<open>batch.shapes\<close>: it adds \<^verbatim>\<open>input_shape[0]\<close> to
  \<^verbatim>\<open>total_inference_count\<close> and pushes the output shape. \<open>None\<close> is the undefined
  behaviour of \<^verbatim>\<open>input_shape[0]\<close> on an empty shape.
\<close>
fun shape_loop ::
  "model_state \<Rightarrow> int64 list list \<Rightarrow> int64 \<Rightarrow> int64 list list \<Rightarrow> (int64 \<times> int64 list list) option"
where
  "shape_loop ms [] inference_count output_shapes = Some (inference_count, output_shapes)"
| "shape_loop ms (input_shape # rest) inference_count output_shapes =
     (case input_shape of
        [] \<Rightarrow> None
      | r # _ \<Rightarrow>
          shape_loop ms rest (inference_count + r)
            (output_shapes @ [if predict_proba ms then [r, num_class ms] else [r]]))"

subsection \<open>One batch (lines 187-251)\<close>

text \<open>The body of the inner try block (lines 208-234).\<close>
definition try_batch ::
  "world \<Rightarrow> model_state \<Rightarrow> batch \<Rightarrow> request list \<Rightarrow> int64 list list \<Rightarrow> timestamp \<Rightarrow> state
     \<Rightarrow> unit result"
where
  "try_batch w ms b batch_requests output_shapes batch_start_time s0 =
     (let output_batch = OutputBatch (responses s0) output_shapes in
      case ext w (GetOutputBatch batch_requests (responses s0) (target_memory w) output_shapes) s0 of
        (Inl e, s1) \<Rightarrow> (Inl e, s1)
      | (Inr _, s1) \<Rightarrow>
      let (batch_compute_start_time, s2) = now w s1 in
      case ext w (Predict (data b) output_batch (predict_proba ms)) s2 of
        (Inl e, s3) \<Rightarrow> (Inl e, s3)
      | (Inr _, s3) \<Rightarrow>
      let (batch_compute_end_time, s4) = now w s3 in
      case ext w (Sync output_batch) s4 of
        (Inl e, s5) \<Rightarrow> (Inl e, s5)
      | (Inr _, s5) \<Rightarrow>
      case ext w (SendResponses (responses s5)) s5 of
        (Inl e, s6) \<Rightarrow> (Inl e, s6)
      | (Inr _, s6) \<Rightarrow>
      let s7 = s6\<lparr>responses := [], end_request := snd (extent b)\<rparr>;
          (batch_end_time, s8) = now w s7;
          s9 = report_guarded w
                 (ReportStatistics batch_requests True batch_start_time
                    batch_compute_start_time batch_compute_end_time batch_end_time) s8
      in ext w (ReleaseRequests batch_requests) s9)"

text \<open>
  The handler of the inner try block (lines 236-251). The two clock readings are
  arguments of one call; they are read here from left to right.
\<close>
definition catch_batch ::
  "world \<Rightarrow> batch \<Rightarrow> request list \<Rightarrow> timestamp \<Rightarrow> triton_error \<Rightarrow> state \<Rightarrow> unit result"
where
  "catch_batch w b batch_requests batch_start_time request_err s0 =
     (case ext w (SendResponsesError (responses s0) request_err) s0 of
        (Inl e, s1) \<Rightarrow> (Inl e, s1)
      | (Inr _, s1) \<Rightarrow>
      let s2 = s1\<lparr>responses := [], end_request := snd (extent b)\<rparr>;
          (t_compute_end, s3) = now w s2;
          (t_end, s4) = now w s3;
          s5 = report_guarded w
                 (ReportStatistics batch_requests False batch_start_time batch_start_time
                    t_compute_end t_end) s4
      in ext w (ReleaseRequests batch_requests) s5)"

text \<open>
  The first part of the loop body (lines 187-206): the batch start time, the output
  shapes, the requests of the extent and their responses. The vector
  \<^verbatim>\<open>batch_requests\<close> is built from the iterator range
  \<^verbatim>\<open>[begin + extent.first, begin + extent.second)\<close>, which is undefined outside the
  request vector.
\<close>
definition stage_batch ::
  "world \<Rightarrow> model_state \<Rightarrow> request list \<Rightarrow> batch \<Rightarrow> state
     \<Rightarrow> (timestamp \<times> int64 list list \<times> request list) result"
where
  "stage_batch w ms requests b s0 =
     (let (batch_start_time, s1) = now w s0 in
      case shape_loop ms (shapes b) (total_inference_count s1) [] of
        None \<Rightarrow> (Inl UndefinedBehaviour, s1)
      | Some (inference_count, output_shapes) \<Rightarrow>
      let s2 = s1\<lparr>total_inference_count := inference_count\<rparr> in
      if \<not> (fst (extent b) \<le> snd (extent b) \<and> snd (extent b) \<le> length requests)
      then (Inl UndefinedBehaviour, s2)
      else
      let batch_requests = take (snd (extent b) - fst (extent b)) (drop (fst (extent b)) requests) in
      case ext w (ConstructResponses batch_requests) s2 of
        (Inl e, s3) \<Rightarrow> (Inl e, s3)
      | (Inr _, s3) \<Rightarrow>
          (Inr (batch_start_time, output_shapes, batch_requests),
           s3\<lparr>responses := construct_responses batch_requests\<rparr>))"

text \<open>The body of the range-for loop: the first part, then the inner try block and its handler.\<close>
definition process_batch ::
  "world \<Rightarrow> model_state \<Rightarrow> request list \<Rightarrow> batch \<Rightarrow> state \<Rightarrow> unit result"
where
  "process_batch w ms requests b s0 =
     (case stage_batch w ms requests b s0 of
        (Inl e, s1) \<Rightarrow> (Inl e, s1)
      | (Inr (batch_start_time, output_shapes, batch_requests), s1) \<Rightarrow>
      case try_batch w ms b batch_requests output_shapes batch_start_time s1 of
        (Inl (TritonException request_err), s2) \<Rightarrow>
          catch_batch w b batch_requests batch_start_time request_err s2
      | r \<Rightarrow> r)"

subsection \<open>The batch loop and the planning-level handler (lines 182-276)\<close>

text \<open>
  The range-for loop (lines 186-252) over the batches of the planner. When they are
  exhausted the loop ends, or the planner's own failure \<open>plan_error\<close> is raised.
\<close>
fun batch_loop ::
  "world \<Rightarrow> model_state \<Rightarrow> request list \<Rightarrow> batch list \<Rightarrow> state \<Rightarrow> unit result"
where
  "batch_loop w ms requests [] s =
     (case plan_error w of
        None \<Rightarrow> (Inr (), s)
      | Some e \<Rightarrow> (Inl (TritonException e), s))"
| "batch_loop w ms requests (b # rest) s =
     (case process_batch w ms requests b s of
        (Inl e, s') \<Rightarrow> (Inl e, s')
      | (Inr _, s') \<Rightarrow> batch_loop w ms requests rest s')"

text \<open>The body of the middle try block (lines 183-252).\<close>
definition run_batches :: "world \<Rightarrow> model_state \<Rightarrow> request list \<Rightarrow> state \<Rightarrow> unit result" where
  "run_batches w ms requests s0 =
     (case ext w (GetInputBatches requests (target_memory w)) s0 of
        (Inl e, s1) \<Rightarrow> (Inl e, s1)
      | (Inr _, s1) \<Rightarrow> batch_loop w ms requests (planned w) s1)"

text \<open>
  The handler of the middle try block (lines 254-276); it returns the error. The
  remaining requests are \<^verbatim>\<open>[raw_requests + end_request, raw_requests + request_count)\<close>;
  \<open>end_request\<close> is 0 or the end of an extent within the request vector.
\<close>
definition abort_remaining ::
  "world \<Rightarrow> request list \<Rightarrow> timestamp \<Rightarrow> triton_error \<Rightarrow> state \<Rightarrow> (triton_error option) result"
where
  "abort_remaining w raw_requests all_start_time request_err s0 =
     (case ext w (SendResponsesError (responses s0) request_err) s0 of
        (Inl e, s1) \<Rightarrow> (Inl e, s1)
      | (Inr _, s1) \<Rightarrow>
      let s2 = s1\<lparr>responses := []\<rparr>;
          requests = drop (end_request s2) raw_requests in
      case ext w (SendErrorResponses requests request_err) s2 of
        (Inl e, s3) \<Rightarrow> (Inl e, s3)
      | (Inr _, s3) \<Rightarrow>
      let (all_end_time, s4) = now w s3;
          s5 = report_guarded w
                 (ReportStatistics requests False all_start_time all_start_time
                    all_end_time all_end_time) s4
      in
      case ext w (ReleaseRequests requests) s5 of
        (Inl e, s6) \<Rightarrow> (Inl e, s6)
      | (Inr _, s6) \<Rightarrow> (Inr (Some request_err), s6))"

subsection \<open>The entry point (lines 163-294)\<close>

text \<open>The body of the outer try block (lines 173-287).\<close>
definition execute_body ::
  "world \<Rightarrow> request list \<Rightarrow> timestamp \<Rightarrow> state \<Rightarrow> (triton_error option) result"
where
  "execute_body w raw_requests all_start_time s0 =
     (case ext w GetInstanceState s0 of
        (Inl e, s1) \<Rightarrow> (Inl e, s1)
      | (Inr _, s1) \<Rightarrow>
      case ext w StateForModel s1 of
        (Inl e, s2) \<Rightarrow> (Inl e, s2)
      | (Inr _, s2) \<Rightarrow>
      case ext w GetNativeMemory s2 of
        (Inl e, s3) \<Rightarrow> (Inl e, s3)
      | (Inr _, s3) \<Rightarrow>
      let s4 = s3\<lparr>end_request := 0\<rparr> in
      case run_batches w (model w) raw_requests s4 of
        (Inl (TritonException request_err), s5) \<Rightarrow>
          abort_remaining w raw_requests all_start_time request_err s5
      | (Inl UndefinedBehaviour, s5) \<Rightarrow> (Inl UndefinedBehaviour, s5)
      | (Inr _, s5) \<Rightarrow>
      let (all_end_time, s6) = now w s5;
          s7 = report_guarded w
                 (ReportStatisticsCount (total_inference_count s6) all_start_time
                    all_start_time all_end_time all_end_time) s6
      in (Inr None, s7))"

definition execute :: "world \<Rightarrow> request list \<Rightarrow> outcome \<times> state" where
  "execute w raw_requests =
     (let (all_start_time, s0) = now w init_state in
      case execute_body w raw_requests all_start_time s0 of
        (Inl (TritonException err), s) \<Rightarrow> (Returned (Some err), s)
      | (Inl UndefinedBehaviour, s) \<Rightarrow> (Undefined, s)
      | (Inr ret, s) \<Rightarrow> (Returned ret, s))"


section \<open>Observations and assumptions\<close>

subsection \<open>What a trace says about a request\<close>

text \<open>
  The requests whose response channel receives a terminal outcome by a call:
  \<^verbatim>\<open>send_responses\<close> sends every response of the vector it is given (with or without
  an error), \<^verbatim>\<open>send_error_responses\<close> sends an error response for every request it is
  given.
\<close>
fun responded_by :: "call \<Rightarrow> request list" where
  "responded_by (SendResponses resps) = map request_of resps"
| "responded_by (SendResponsesError resps e) = map request_of resps"
| "responded_by (SendErrorResponses reqs e) = reqs"
| "responded_by _ = []"

definition responded :: "call list \<Rightarrow> request list" where
  "responded cs = concat (map responded_by cs)"

fun released_by :: "call \<Rightarrow> request list" where
  "released_by (ReleaseRequests reqs) = reqs"
| "released_by _ = []"

definition released :: "call list \<Rightarrow> request list" where
  "released cs = concat (map released_by cs)"

subsection \<open>Kinds of helper calls\<close>

fun is_routing :: "call \<Rightarrow> bool" where
  "is_routing (SendResponses resps) = True"
| "is_routing (SendResponsesError resps e) = True"
| "is_routing (SendErrorResponses reqs e) = True"
| "is_routing (ReleaseRequests reqs) = True"
| "is_routing _ = False"

fun is_compute :: "call \<Rightarrow> bool" where
  "is_compute (GetOutputBatch reqs resps m outs) = True"
| "is_compute (Predict d ob pp) = True"
| "is_compute (Sync ob) = True"
| "is_compute _ = False"

fun is_report :: "call \<Rightarrow> bool" where
  "is_report (ReportStatistics reqs ok t1 t2 t3 t4) = True"
| "is_report (ReportStatisticsCount n t1 t2 t3 t4) = True"
| "is_report _ = False"

subsection \<open>Assumptions on the environment\<close>

text \<open>Sending responses and releasing requests never raise.\<close>
definition routing_total :: "world \<Rightarrow> bool" where
  "routing_total w = (\<forall>h c. is_routing c \<longrightarrow> throws w h c = None)"

text \<open>The three calls before planning (lines 173-175) do not raise.\<close>
definition setup_ok :: "world \<Rightarrow> bool" where
  "setup_ok w =
     (throws w [] GetInstanceState = None \<and>
      throws w [GetInstanceState] StateForModel = None \<and>
      throws w [GetInstanceState, StateForModel] GetNativeMemory = None)"

text \<open>
  The state in which line 183 is reached when the three calls before it did not raise:
  one clock reading (\<^verbatim>\<open>all_start_time\<close>), three helper calls.
\<close>
definition planning_state :: state where
  "planning_state =
     \<lparr>calls = [GetInstanceState, StateForModel, GetNativeMemory], logs = [], ticks = 1,
      total_inference_count = 0, responses = [], end_request = 0\<rparr>"

text \<open>
  A batch on which the loop body has defined behaviour for \<open>n\<close> requests: its extent is
  a range of the request vector and each input shape has a first dimension.
\<close>
definition batch_ok :: "nat \<Rightarrow> batch \<Rightarrow> bool" where
  "batch_ok n b =
     (fst (extent b) \<le> snd (extent b) \<and> snd (extent b) \<le> n \<and>
      (\<forall>sh \<in> set (shapes b). sh \<noteq> []))"

text \<open>Each batch starts where the one before it ended; the first starts at \<open>start\<close>.\<close>
fun contiguous :: "nat \<Rightarrow> batch list \<Rightarrow> bool" where
  "contiguous start [] = True"
| "contiguous start (b # bs) = (fst (extent b) = start \<and> contiguous (snd (extent b)) bs)"

fun plan_end :: "nat \<Rightarrow> batch list \<Rightarrow> nat" where
  "plan_end start [] = start"
| "plan_end start (b # bs) = plan_end (snd (extent b)) bs"

text \<open>
  The planner's contract (spec, section 3): the extents of the batches partition the
  request range without gaps or overlaps. A planner that fails after some batches has
  covered a prefix of the range only.
\<close>
definition wf_plan :: "world \<Rightarrow> request list \<Rightarrow> bool" where
  "wf_plan w raw_requests =
     ((\<forall>b \<in> set (planned w). batch_ok (length raw_requests) b) \<and>
      contiguous 0 (planned w) \<and>
      (plan_error w = None \<longrightarrow> plan_end 0 (planned w) = length raw_requests))"


text \<open>Two environments that differ at most in whether reporting statistics raises.\<close>
definition same_but_statistics :: "world \<Rightarrow> world \<Rightarrow> bool" where
  "same_but_statistics w w' =
     (clock w' = clock w \<and> model w' = model w \<and> target_memory w' = target_memory w \<and>
      planned w' = planned w \<and> plan_error w' = plan_error w \<and>
      (\<forall>h c. \<not> is_report c \<longrightarrow> throws w' h c = throws w h c))"

text \<open>
  The calls \<open>cs\<close> end with a prediction into an output batch staged for the responses
  \<open>resps\<close> and the synchronisation of that output batch, and neither raised.
\<close>
definition right_after_sync :: "world \<Rightarrow> call list \<Rightarrow> response list \<Rightarrow> bool" where
  "right_after_sync w cs resps =
     (\<exists>pre d outs pp.
        cs = pre @ [Predict d (OutputBatch resps outs) pp, Sync (OutputBatch resps outs)] \<and>
        throws w pre (Predict d (OutputBatch resps outs) pp) = None \<and>
        throws w (pre @ [Predict d (OutputBatch resps outs) pp])
          (Sync (OutputBatch resps outs)) = None)"

text \<open>
  What the batch loop may call after the calls \<open>cs\<close>: success responses are sent only
  right after a prediction and a synchronisation on the output batch of these responses
  that did not raise; a failure statistic has its compute-start equal to its start.
\<close>
definition loop_call :: "world \<Rightarrow> call list \<Rightarrow> call \<Rightarrow> bool" where
  "loop_call w cs c =
     (case c of
        GetInputBatches reqs m \<Rightarrow> True
      | ConstructResponses reqs \<Rightarrow> True
      | GetOutputBatch reqs resps m outs \<Rightarrow> True
      | Predict d ob pp \<Rightarrow> True
      | Sync ob \<Rightarrow> True
      | SendResponses resps \<Rightarrow> right_after_sync w cs resps
      | SendResponsesError resps e \<Rightarrow> True
      | ReportStatistics reqs ok t1 t2 t3 t4 \<Rightarrow> (\<not> ok \<longrightarrow> t2 = t1)
      | ReleaseRequests reqs \<Rightarrow> True
      | _ \<Rightarrow> False)"

text \<open>The calls \<open>seg\<close>, made one after the other after the calls \<open>h\<close>, are calls of the batch loop.\<close>
fun steps_ok :: "world \<Rightarrow> call list \<Rightarrow> call list \<Rightarrow> bool" where
  "steps_ok w h [] = True"
| "steps_ok w h (c # cs) = (loop_call w h c \<and> steps_ok w (h @ [c]) cs)"

definition extends :: "world \<Rightarrow> call list \<Rightarrow> call list \<Rightarrow> bool" where
  "extends w cs cs' = (\<exists>seg. cs' = cs @ seg \<and> steps_ok w cs seg)"

text \<open>
  The messages of the statistics calls that raise among the calls \<open>cs\<close> made after the
  calls \<open>h\<close>, in order.
\<close>
fun statistics_errors :: "world \<Rightarrow> call list \<Rightarrow> call list \<Rightarrow> string list" where
  "statistics_errors w h [] = []"
| "statistics_errors w h (c # cs) =
     (case (if is_report c then throws w h c else None) of
        None \<Rightarrow> []
      | Some e \<Rightarrow> [what e]) @ statistics_errors w (h @ [c]) cs"

text \<open>From \<open>s\<close> to \<open>s'\<close>, calls were added, and the failures of the statistics calls among them were logged.\<close>
definition logged :: "world \<Rightarrow> state \<Rightarrow> state \<Rightarrow> bool" where
  "logged w s s' =
     (\<exists>seg. calls s' = calls s @ seg \<and> logs s' = logs s @ statistics_errors w (calls s) seg)"

text \<open>Two states that differ at most in the log.\<close>
definition same_but_logs :: "state \<Rightarrow> state \<Rightarrow> bool" where
  "same_but_logs s s' =
     (calls s' = calls s \<and> ticks s' = ticks s \<and>
      total_inference_count s' = total_inference_count s \<and>
      responses s' = responses s \<and> end_request s' = end_request s)"

subsection \<open>Scenarios\<close>

text \<open>
  Three requests with 4, 1 and 8 rows, planned as the batches \<open>[0, 2)\<close> and \<open>[2, 3)\<close>
  (spec, section 8). The clock counts its readings.
\<close>
definition two_batches :: "batch list" where
  "two_batches =
     [\<lparr>data = 1, shapes = [[4, 3], [1, 3]], extent = (0, 2)\<rparr>,
      \<lparr>data = 2, shapes = [[8, 3]], extent = (2, 3)\<rparr>]"

definition scenario ::
  "(call list \<Rightarrow> call \<Rightarrow> triton_error option) \<Rightarrow> batch list \<Rightarrow> triton_error option \<Rightarrow> world"
where
  "scenario thr bs perr =
     \<lparr>throws = thr, clock = (\<lambda>n. of_nat n),
      model = \<lparr>predict_proba = False, num_class = 2\<rparr>, target_memory = HostMemory,
      planned = bs, plan_error = perr\<rparr>"

text \<open>No helper raises.\<close>
definition all_succeed :: world where
  "all_succeed = scenario (\<lambda>h c. None) two_batches None"

text \<open>The prediction of the second batch raises.\<close>
definition predict_fails :: world where
  "predict_fails =
     scenario (\<lambda>h c. case c of
                 Predict d ob pp \<Rightarrow> if d = 2 then Some (TritonError 1 ''predict'') else None
               | _ \<Rightarrow> None)
       two_batches None"

text \<open>Obtaining the instance state raises.\<close>
definition setup_fails :: world where
  "setup_fails =
     scenario (\<lambda>h c. case c of
                 GetInstanceState \<Rightarrow> Some (TritonError 2 ''instance state'')
               | _ \<Rightarrow> None)
       two_batches None"

text \<open>The planner yields a batch for the first request and fails on the second.\<close>
definition planner_fails :: world where
  "planner_fails =
     scenario (\<lambda>h c. None) [\<lparr>data = 1, shapes = [[4, 3]], extent = (0, 1)\<rparr>]
       (Some (TritonError 3 ''malformed input''))"

text \<open>Every report of statistics raises.\<close>
definition statistics_fail :: world where
  "statistics_fail =
     scenario (\<lambda>h c. if is_report c then Some (TritonError 4 ''statistics'') else None)
       two_batches None"

text \<open>The planner yields no batch.\<close>
definition no_batches :: world where
  "no_batches = scenario (\<lambda>h c. None) [] None"



section \<open>Basic facts about helper calls\<close>

lemma report_guarded_eq:
  "report_guarded w c s =
     (case throws w (calls s) c of
        None \<Rightarrow> s\<lparr>calls := calls s @ [c]\<rparr>
      | Some e \<Rightarrow> s\<lparr>calls := calls s @ [c], logs := logs s @ [what e]\<rparr>)"
  by (simp add: report_guarded_def ext_def split: option.splits)

section \<open>Output shapes\<close>

lemma shape_loop_Some:
  "shape_loop ms shs n acc = Some r \<longleftrightarrow>
     (\<forall>sh \<in> set shs. sh \<noteq> []) \<and>
     r = (n + sum_list (map hd shs),
          acc @ map (\<lambda>sh. if predict_proba ms then [hd sh, num_class ms] else [hd sh]) shs)"
  by (induction shs arbitrary: n acc) (auto split: list.splits simp: add.assoc)

text \<open>
  C4. For a batch whose input shapes all have a first dimension, the shape loop yields
  one output shape per input shape of the batch; the output shape at position \<open>j\<close> is
  \<open>[r\<^sub>j, num_class]\<close> when \<open>predict_proba\<close> is set and \<open>[r\<^sub>j]\<close> otherwise, where \<open>r\<^sub>j\<close> is the
  first dimension (the row count) of the input shape at position \<open>j\<close>.
\<close>
theorem output_shapes_per_request:
  assumes "\<forall>sh \<in> set (shapes b). sh \<noteq> []"
  shows "\<exists>n' outs. shape_loop ms (shapes b) n [] = Some (n', outs) \<and>
           length outs = length (shapes b) \<and>
           (\<forall>j < length (shapes b).
              outs ! j = (if predict_proba ms then [shapes b ! j ! 0, num_class ms]
                          else [shapes b ! j ! 0]))"
  using assms by (simp add: shape_loop_Some hd_conv_nth)

theorem output_shapes_per_request_witness:
  "\<exists>n' outs. shape_loop \<lparr>predict_proba = True, num_class = 3\<rparr> [[4, 7], [1, 7]] 0 [] = Some (n', outs) \<and>
      outs = [[4, 3], [1, 3]]"
  using output_shapes_per_request [of "\<lparr>data = 0, shapes = [[4, 7], [1, 7]], extent = (0, 2)\<rparr>"
      "\<lparr>predict_proba = True, num_class = 3\<rparr>" 0]
  by simp

section \<open>Failure before planning\<close>

text \<open>
  C8. When obtaining the instance state, the model state or the target memory raises,
  the entry point returns that error, and the only helper calls made are those three:
  no response is constructed or sent, no statistic is reported, no request is released.
\<close>
theorem setup_failure_returns_error:
  assumes "throws w [] GetInstanceState = Some e \<or>
           (throws w [] GetInstanceState = None \<and>
            throws w [GetInstanceState] StateForModel = Some e) \<or>
           (throws w [] GetInstanceState = None \<and>
            throws w [GetInstanceState] StateForModel = None \<and>
            throws w [GetInstanceState, StateForModel] GetNativeMemory = Some e)"
  shows "fst (execute w raw_requests) = Returned (Some e) \<and>
         set (calls (snd (execute w raw_requests)))
           \<subseteq> {GetInstanceState, StateForModel, GetNativeMemory}"
  using assms
  by (auto simp: execute_def execute_body_def now_def init_state_def ext_def)


lemma execute_setup_ok:
  assumes "setup_ok w"
  shows "execute w raw_requests =
     (case run_batches w (model w) raw_requests planning_state of
        (Inl (TritonException request_err), s) \<Rightarrow>
          (case abort_remaining w raw_requests (clock w 0) request_err s of
             (Inl (TritonException err), s') \<Rightarrow> (Returned (Some err), s')
           | (Inl UndefinedBehaviour, s') \<Rightarrow> (Undefined, s')
           | (Inr ret, s') \<Rightarrow> (Returned ret, s'))
      | (Inl UndefinedBehaviour, s) \<Rightarrow> (Undefined, s)
      | (Inr _, s) \<Rightarrow>
          (Returned None,
           report_guarded w
             (ReportStatisticsCount (total_inference_count s) (clock w 0) (clock w 0)
                (clock w (ticks s)) (clock w (ticks s)))
             (s\<lparr>ticks := Suc (ticks s)\<rparr>)))"
  using assms
  by (simp add: execute_def execute_body_def now_def init_state_def ext_def setup_ok_def
      planning_state_def split: prod.splits sum.splits exc.splits)

lemma execute_setup_failed:
  assumes "\<not> setup_ok w"
  shows "set (calls (snd (execute w raw_requests)))
           \<subseteq> {GetInstanceState, StateForModel, GetNativeMemory}"
  using assms
  by (auto simp: execute_def execute_body_def now_def init_state_def ext_def setup_ok_def
      split: option.splits)

section \<open>The calls of the batch loop\<close>

lemma steps_ok_append:
  "steps_ok w h (seg @ seg') = (steps_ok w h seg \<and> steps_ok w (h @ seg) seg')"
  by (induction seg arbitrary: h) auto

lemma extends_refl: "extends w cs cs"
  by (simp add: extends_def)

lemma extends_trans: "extends w cs cs' \<Longrightarrow> extends w cs' cs'' \<Longrightarrow> extends w cs cs''"
  by (auto simp: extends_def steps_ok_append)

lemma extends_step: "loop_call w cs c \<Longrightarrow> extends w cs (cs @ [c])"
  by (simp add: extends_def)

lemma extends_invariant:
  assumes "extends w cs cs'" and "I cs"
    and step: "\<And>h c. I h \<Longrightarrow> loop_call w h c \<Longrightarrow> I (h @ [c])"
  shows "I cs'"
proof -
  have "steps_ok w h seg \<Longrightarrow> I h \<Longrightarrow> I (h @ seg)" for h seg
  proof (induction seg arbitrary: h)
    case Nil
    then show ?case by simp
  next
    case (Cons c seg)
    from Cons.prems have "I (h @ [c])" by (simp add: step)
    with Cons.IH [of "h @ [c]"] Cons.prems show ?case by simp
  qed
  with assms show ?thesis by (auto simp: extends_def)
qed

lemma try_batch_extends:
  "extends w (calls s) (calls (snd (try_batch w ms b reqs outs t s)))"
  apply (simp add: try_batch_def ext_def now_def report_guarded_eq Let_def extends_def
      split: option.splits)
  apply (intro conjI impI allI)
  apply (simp_all add: loop_call_def right_after_sync_def)
  done


lemma catch_batch_extends:
  "extends w (calls s) (calls (snd (catch_batch w b reqs t e s)))"
  apply (simp add: catch_batch_def ext_def now_def report_guarded_eq Let_def extends_def
      split: option.splits)
  apply (intro conjI impI allI)
  apply (simp_all add: loop_call_def right_after_sync_def)
  done

lemma try_batch_extendsD:
  "try_batch w ms b reqs outs t s = (r, s') \<Longrightarrow> extends w (calls s) (calls s')"
  using try_batch_extends [of w s ms b reqs outs t] by simp

lemma process_batch_extends:
  "extends w (calls s) (calls (snd (process_batch w ms requests b s)))"
proof -
  have stage: "extends w (calls s) (calls (snd (stage_batch w ms requests b s)))"
    by (simp add: stage_batch_def now_def Let_def ext_def extends_refl extends_step loop_call_def
        split: option.splits prod.splits)
  show ?thesis
  proof (cases "stage_batch w ms requests b s")
    case (Pair r s1)
    show ?thesis
    proof (cases r)
      case (Inl e)
      with Pair stage show ?thesis by (simp add: process_batch_def)
    next
      case (Inr staged)
      obtain t outs reqs where staged: "staged = (t, outs, reqs)" by (cases staged)
      obtain r' s2 where tried: "try_batch w ms b reqs outs t s1 = (r', s2)"
        by (cases "try_batch w ms b reqs outs t s1")
      from Pair stage tried have upto: "extends w (calls s) (calls s2)"
        by (auto dest: try_batch_extendsD intro: extends_trans)
      from upto catch_batch_extends [of w s2 b reqs t]
      have "extends w (calls s) (calls (snd (catch_batch w b reqs t e s2)))" for e
        by (rule extends_trans)
      with upto Pair Inr staged tried show ?thesis
        by (simp add: process_batch_def split: sum.splits exc.splits)
    qed
  qed
qed

lemma batch_loop_extends:
  "extends w (calls s) (calls (snd (batch_loop w ms requests bs s)))"
proof (induction bs arbitrary: s)
  case Nil
  show ?case by (simp add: extends_refl split: option.splits)
next
  case (Cons b bs)
  show ?case
  proof (cases "process_batch w ms requests b s")
    case (Pair r s')
    with process_batch_extends [of w s ms requests b]
    have step: "extends w (calls s) (calls s')" by simp
    show ?thesis
    proof (cases r)
      case (Inl e)
      with Pair step show ?thesis by simp
    next
      case (Inr u)
      with Pair step Cons.IH [of s'] show ?thesis
        by (auto intro: extends_trans)
    qed
  qed
qed

lemma run_batches_extends:
  "extends w (calls s) (calls (snd (run_batches w ms requests s)))"
proof -
  have "extends w (calls s) (calls s @ [GetInputBatches requests (target_memory w)])"
    by (rule extends_step) (simp add: loop_call_def)
  then show ?thesis
    using batch_loop_extends
      [of w "s\<lparr>calls := calls s @ [GetInputBatches requests (target_memory w)]\<rparr>" ms requests "planned w"]
    by (auto simp: run_batches_def ext_def split: option.splits intro: extends_trans)
qed


section \<open>The calls of an invocation\<close>

lemma abort_remaining_calls:
  "\<exists>seg. calls (snd (abort_remaining w raw t0 e s)) = calls s @ seg \<and>
     seg \<in> {[SendResponsesError (responses s) e],
            [SendResponsesError (responses s) e, SendErrorResponses (drop (end_request s) raw) e],
            [SendResponsesError (responses s) e, SendErrorResponses (drop (end_request s) raw) e,
             ReportStatistics (drop (end_request s) raw) False t0 t0 (clock w (ticks s)) (clock w (ticks s)),
             ReleaseRequests (drop (end_request s) raw)]}"
  by (simp add: abort_remaining_def ext_def now_def report_guarded_eq Let_def
      split: option.splits)

text \<open>
  The trace of an invocation: calls before planning only, or the calls up to the end of
  the batch loop followed by the final statistic or by the calls of the planning-level
  handler.
\<close>
lemma execute_calls:
  obtains
    (early) "set (calls (snd (execute w raw))) \<subseteq> {GetInstanceState, StateForModel, GetNativeMemory}"
  | (later) cs seg where "calls (snd (execute w raw)) = cs @ seg"
      "extends w [GetInstanceState, StateForModel, GetNativeMemory] cs"
      "seg = [] \<or> (\<exists>n t1. seg = [ReportStatisticsCount n (clock w 0) (clock w 0) t1 t1]) \<or>
       (\<exists>resps e. seg = [SendResponsesError resps e]) \<or>
       (\<exists>resps e rem. seg = [SendResponsesError resps e, SendErrorResponses rem e]) \<or>
       (\<exists>resps e rem t1. seg = [SendResponsesError resps e, SendErrorResponses rem e,
             ReportStatistics rem False (clock w 0) (clock w 0) t1 t1, ReleaseRequests rem])"
proof (cases "setup_ok w")
  case False
  then show ?thesis using execute_setup_failed early by blast
next
  case True
  obtain r s where run: "run_batches w (model w) raw planning_state = (r, s)"
    by (cases "run_batches w (model w) raw planning_state")
  with run_batches_extends [of w planning_state "model w" raw]
  have ext: "extends w [GetInstanceState, StateForModel, GetNativeMemory] (calls s)"
    by (simp add: planning_state_def)
  show ?thesis
  proof (cases r)
    case (Inr u)
    with True run have "calls (snd (execute w raw)) = calls s @
        [ReportStatisticsCount (total_inference_count s) (clock w 0) (clock w 0)
           (clock w (ticks s)) (clock w (ticks s))]"
      by (simp add: execute_setup_ok report_guarded_eq split: option.splits)
    with ext show ?thesis by (intro later [of "calls s"]) auto
  next
    case (Inl x)
    show ?thesis
    proof (cases x)
      case UndefinedBehaviour
      with True run Inl have "calls (snd (execute w raw)) = calls s @ []"
        by (simp add: execute_setup_ok)
      with ext show ?thesis by (intro later [of "calls s" "[]"]) auto
    next
      case (TritonException e)
      with True run Inl have "calls (snd (execute w raw)) =
          calls (snd (abort_remaining w raw (clock w 0) e s))"
        by (simp add: execute_setup_ok split: prod.splits sum.splits exc.splits)
      with abort_remaining_calls [of w raw "clock w 0" e s]
      obtain seg where "calls (snd (execute w raw)) = calls s @ seg"
        "seg \<in> {[SendResponsesError (responses s) e],
            [SendResponsesError (responses s) e, SendErrorResponses (drop (end_request s) raw) e],
            [SendResponsesError (responses s) e, SendErrorResponses (drop (end_request s) raw) e,
             ReportStatistics (drop (end_request s) raw) False (clock w 0) (clock w 0) (clock w (ticks s)) (clock w (ticks s)),
             ReleaseRequests (drop (end_request s) raw)]}"
        by auto
      with ext show ?thesis by (intro later [of "calls s" seg]) auto
    qed
  qed
qed


section \<open>Synchronisation before success responses\<close>

lemma send_after_sync_step:
  assumes inv: "\<forall>pre resps post. h = pre @ SendResponses resps # post \<longrightarrow> right_after_sync w pre resps"
    and new: "\<forall>resps. c = SendResponses resps \<longrightarrow> right_after_sync w h resps"
  shows "\<forall>pre resps post. h @ [c] = pre @ SendResponses resps # post \<longrightarrow> right_after_sync w pre resps"
proof (intro allI impI)
  fix pre resps post
  assume eq: "h @ [c] = pre @ SendResponses resps # post"
  show "right_after_sync w pre resps"
  proof (cases post rule: rev_cases)
    case Nil
    with eq have "h = pre" "c = SendResponses resps" by auto
    with new show ?thesis by simp
  next
    case (snoc post' x)
    with eq have "h = pre @ SendResponses resps # post'" by auto
    with inv show ?thesis by blast
  qed
qed

lemma send_after_sync_steps:
  assumes inv: "\<forall>pre resps post. h = pre @ SendResponses resps # post \<longrightarrow> right_after_sync w pre resps"
    and new: "\<forall>resps. SendResponses resps \<notin> set seg"
  shows "\<forall>pre resps post. h @ seg = pre @ SendResponses resps # post \<longrightarrow> right_after_sync w pre resps"
  using assms
proof (induction seg arbitrary: h)
  case Nil
  then show ?case by simp
next
  case (Cons c seg)
  from Cons.prems have "\<forall>pre resps post. h @ [c] = pre @ SendResponses resps # post \<longrightarrow> right_after_sync w pre resps"
    by (intro send_after_sync_step) auto
  from Cons.IH [OF this] Cons.prems(2) show ?case by simp
qed

text \<open>
  C7. In every invocation, every call that sends success responses comes right after
  the synchronisation of the output batch staged for exactly these responses, which
  comes right after the prediction into that output batch, and both returned without
  raising.
\<close>
theorem sync_before_success_responses:
  assumes "calls (snd (execute w raw_requests)) = pre @ SendResponses resps # post"
  shows "\<exists>pre' d outs pp.
           pre = pre' @ [Predict d (OutputBatch resps outs) pp, Sync (OutputBatch resps outs)] \<and>
           throws w pre' (Predict d (OutputBatch resps outs) pp) = None \<and>
           throws w (pre' @ [Predict d (OutputBatch resps outs) pp])
             (Sync (OutputBatch resps outs)) = None"
proof -
  have "right_after_sync w pre resps"
  proof (cases rule: execute_calls [of w raw_requests])
    case early
    with assms show ?thesis by auto
  next
    case (later cs seg)
    have "\<forall>pre resps post. cs = pre @ SendResponses resps # post \<longrightarrow> right_after_sync w pre resps"
      using later(2)
    proof (rule extends_invariant)
      show "\<forall>pre resps post. [GetInstanceState, StateForModel, GetNativeMemory]
              = pre @ SendResponses resps # post \<longrightarrow> right_after_sync w pre resps"
        by (auto simp: append_eq_Cons_conv Cons_eq_append_conv)
    next
      fix h c
      assume "\<forall>pre resps post. h = pre @ SendResponses resps # post \<longrightarrow> right_after_sync w pre resps"
        and "loop_call w h c"
      then show "\<forall>pre resps post. h @ [c] = pre @ SendResponses resps # post \<longrightarrow> right_after_sync w pre resps"
        by (intro send_after_sync_step) (auto simp: loop_call_def)
    qed
    moreover from later(3) have "\<forall>resps. SendResponses resps \<notin> set seg" by auto
    ultimately have "\<forall>pre resps post. cs @ seg = pre @ SendResponses resps # post \<longrightarrow> right_after_sync w pre resps"
      by (rule send_after_sync_steps)
    with later(1) assms show ?thesis by metis
  qed
  then show ?thesis by (simp add: right_after_sync_def)
qed


section \<open>Timestamps of failure statistics\<close>

lemma split_after_absent:
  "x \<notin> set cs \<Longrightarrow> cs @ seg = pre @ x # post \<Longrightarrow> \<exists>us. seg = us @ x # post"
  by (induction cs arbitrary: pre) (auto simp: Cons_eq_append_conv)

lemma loop_calls_failure_statistics:
  assumes "extends w [GetInstanceState, StateForModel, GetNativeMemory] cs"
  shows "(\<forall>reqs t1 t2 t3 t4. ReportStatistics reqs False t1 t2 t3 t4 \<in> set cs \<longrightarrow> t2 = t1) \<and>
         (\<forall>rem e. SendErrorResponses rem e \<notin> set cs)"
proof -
  define good where "good = (\<lambda>c. case c of
      ReportStatistics reqs ok t1 t2 t3 t4 \<Rightarrow> \<not> ok \<longrightarrow> t2 = t1
    | SendErrorResponses rem e \<Rightarrow> False
    | _ \<Rightarrow> True)"
  from assms have "\<forall>c \<in> set cs. good c"
  proof (rule extends_invariant)
    show "\<forall>c \<in> set [GetInstanceState, StateForModel, GetNativeMemory]. good c"
      by (simp add: good_def)
  next
    fix h c
    assume "\<forall>c \<in> set h. good c" and "loop_call w h c"
    moreover from \<open>loop_call w h c\<close> have "good c"
      by (cases c) (simp_all add: loop_call_def good_def)
    ultimately show "\<forall>c \<in> set (h @ [c]). good c" by simp
  qed
  then have "good (ReportStatistics reqs False t1 t2 t3 t4)"
    if "ReportStatistics reqs False t1 t2 t3 t4 \<in> set cs" for reqs t1 t2 t3 t4
    using that by blast
  moreover from \<open>\<forall>c \<in> set cs. good c\<close> have "good (SendErrorResponses rem e)"
    if "SendErrorResponses rem e \<in> set cs" for rem e
    using that by blast
  ultimately show ?thesis by (auto simp: good_def)
qed

text \<open>
  C10. Every failure statistic of an invocation has its compute-start timestamp equal
  to its start timestamp. The statistic reported after \<^verbatim>\<open>send_error_responses\<close>, which
  only the planning-level handler calls, is a failure statistic whose start and
  compute-start are the first clock reading of the invocation (\<^verbatim>\<open>all_start_time\<close>) and
  whose compute-end equals its end.
\<close>
theorem failure_statistics_timestamps:
  "(ReportStatistics reqs False t1 t2 t3 t4 \<in> set (calls (snd (execute w raw_requests)))
      \<longrightarrow> t2 = t1) \<and>
   (calls (snd (execute w raw_requests)) = pre @ SendErrorResponses rem e # post \<and>
    ReportStatistics reqs' ok u1 u2 u3 u4 \<in> set post
      \<longrightarrow> \<not> ok \<and> u1 = clock w 0 \<and> u2 = clock w 0 \<and> u4 = u3)"
proof (cases rule: execute_calls [of w raw_requests])
  case early
  then show ?thesis by auto
next
  case (later cs seg)
  note inv = loop_calls_failure_statistics [OF later(2)]
  have first: "ReportStatistics reqs False t1 t2 t3 t4 \<in> set (cs @ seg) \<longrightarrow> t2 = t1"
  proof
    assume mem: "ReportStatistics reqs False t1 t2 t3 t4 \<in> set (cs @ seg)"
    show "t2 = t1"
    proof (cases "ReportStatistics reqs False t1 t2 t3 t4 \<in> set cs")
      case True
      with inv show ?thesis by blast
    next
      case False
      with mem have "ReportStatistics reqs False t1 t2 t3 t4 \<in> set seg" by simp
      with later(3) show ?thesis by auto
    qed
  qed
  have second: "\<not> ok \<and> u1 = clock w 0 \<and> u2 = clock w 0 \<and> u4 = u3"
    if eq: "cs @ seg = pre @ SendErrorResponses rem e # post"
      and mem: "ReportStatistics reqs' ok u1 u2 u3 u4 \<in> set post"
  proof -
    from inv have "SendErrorResponses rem e \<notin> set cs" by blast
    then have "\<exists>us. seg = us @ SendErrorResponses rem e # post"
      using eq by (rule split_after_absent)
    then obtain us where "seg = us @ SendErrorResponses rem e # post" ..
    with later(3) mem show ?thesis
      by (auto simp: append_eq_Cons_conv Cons_eq_append_conv)
  qed
  show ?thesis unfolding later(1) using first second by blast
qed


section \<open>The scenarios, evaluated\<close>

lemmas run_defs =
  execute_def execute_body_def run_batches_def process_batch_def stage_batch_def try_batch_def
  catch_batch_def abort_remaining_def ext_def now_def report_guarded_def init_state_def
  construct_responses_def scenario_def two_batches_def Let_def

lemma all_succeed_run:
  "execute all_succeed [10, 11, 12] =
     (Returned None,
      \<lparr>calls =
         [GetInstanceState, StateForModel, GetNativeMemory,
          GetInputBatches [10, 11, 12] HostMemory, ConstructResponses [10, 11],
          GetOutputBatch [10, 11] [ResponseFor 10, ResponseFor 11] HostMemory [[4], [1]],
          Predict 1 (OutputBatch [ResponseFor 10, ResponseFor 11] [[4], [1]]) False,
          Sync (OutputBatch [ResponseFor 10, ResponseFor 11] [[4], [1]]),
          SendResponses [ResponseFor 10, ResponseFor 11],
          ReportStatistics [10, 11] True 1 2 3 4, ReleaseRequests [10, 11],
          ConstructResponses [12],
          GetOutputBatch [12] [ResponseFor 12] HostMemory [[8]],
          Predict 2 (OutputBatch [ResponseFor 12] [[8]]) False,
          Sync (OutputBatch [ResponseFor 12] [[8]]),
          SendResponses [ResponseFor 12], ReportStatistics [12] True 5 6 7 8,
          ReleaseRequests [12], ReportStatisticsCount 13 0 0 9 9],
       logs = [], ticks = 10, total_inference_count = 13, responses = [], end_request = 3\<rparr>)"
  by (simp add: run_defs all_succeed_def)

lemma predict_fails_run:
  "execute predict_fails [10, 11, 12] =
     (Returned None,
      \<lparr>calls =
         [GetInstanceState, StateForModel, GetNativeMemory,
          GetInputBatches [10, 11, 12] HostMemory, ConstructResponses [10, 11],
          GetOutputBatch [10, 11] [ResponseFor 10, ResponseFor 11] HostMemory [[4], [1]],
          Predict 1 (OutputBatch [ResponseFor 10, ResponseFor 11] [[4], [1]]) False,
          Sync (OutputBatch [ResponseFor 10, ResponseFor 11] [[4], [1]]),
          SendResponses [ResponseFor 10, ResponseFor 11],
          ReportStatistics [10, 11] True 1 2 3 4, ReleaseRequests [10, 11],
          ConstructResponses [12],
          GetOutputBatch [12] [ResponseFor 12] HostMemory [[8]],
          Predict 2 (OutputBatch [ResponseFor 12] [[8]]) False,
          SendResponsesError [ResponseFor 12] (TritonError 1 ''predict''),
          ReportStatistics [12] False 5 5 7 8, ReleaseRequests [12],
          ReportStatisticsCount 13 0 0 9 9],
       logs = [], ticks = 10, total_inference_count = 13, responses = [], end_request = 3\<rparr>)"
  by (simp add: run_defs predict_fails_def)

lemma setup_fails_run:
  "execute setup_fails [10, 11, 12] =
     (Returned (Some (TritonError 2 ''instance state'')),
      \<lparr>calls = [GetInstanceState], logs = [], ticks = 1, total_inference_count = 0,
       responses = [], end_request = 0\<rparr>)"
  by (simp add: run_defs setup_fails_def)

lemma planner_fails_run:
  "execute planner_fails [10, 11, 12] =
     (Returned (Some (TritonError 3 ''malformed input'')),
      \<lparr>calls =
         [GetInstanceState, StateForModel, GetNativeMemory,
          GetInputBatches [10, 11, 12] HostMemory, ConstructResponses [10],
          GetOutputBatch [10] [ResponseFor 10] HostMemory [[4]],
          Predict 1 (OutputBatch [ResponseFor 10] [[4]]) False,
          Sync (OutputBatch [ResponseFor 10] [[4]]),
          SendResponses [ResponseFor 10], ReportStatistics [10] True 1 2 3 4,
          ReleaseRequests [10],
          SendResponsesError [] (TritonError 3 ''malformed input''),
          SendErrorResponses [11, 12] (TritonError 3 ''malformed input''),
          ReportStatistics [11, 12] False 0 0 5 5, ReleaseRequests [11, 12]],
       logs = [], ticks = 6, total_inference_count = 4, responses = [], end_request = 1\<rparr>)"
  by (simp add: run_defs planner_fails_def)

lemma statistics_fail_run:
  "execute statistics_fail [10, 11, 12] =
     (Returned None,
      \<lparr>calls =
         [GetInstanceState, StateForModel, GetNativeMemory,
          GetInputBatches [10, 11, 12] HostMemory, ConstructResponses [10, 11],
          GetOutputBatch [10, 11] [ResponseFor 10, ResponseFor 11] HostMemory [[4], [1]],
          Predict 1 (OutputBatch [ResponseFor 10, ResponseFor 11] [[4], [1]]) False,
          Sync (OutputBatch [ResponseFor 10, ResponseFor 11] [[4], [1]]),
          SendResponses [ResponseFor 10, ResponseFor 11],
          ReportStatistics [10, 11] True 1 2 3 4, ReleaseRequests [10, 11],
          ConstructResponses [12],
          GetOutputBatch [12] [ResponseFor 12] HostMemory [[8]],
          Predict 2 (OutputBatch [ResponseFor 12] [[8]]) False,
          Sync (OutputBatch [ResponseFor 12] [[8]]),
          SendResponses [ResponseFor 12], ReportStatistics [12] True 5 6 7 8,
          ReleaseRequests [12], ReportStatisticsCount 13 0 0 9 9],
       logs = [''statistics'', ''statistics'', ''statistics''], ticks = 10,
       total_inference_count = 13, responses = [], end_request = 3\<rparr>)"
  by (simp add: run_defs statistics_fail_def)


section \<open>The first theorems on the scenarios\<close>

theorem setup_failure_returns_error_witness:
  "fst (execute setup_fails [10, 11, 12]) = Returned (Some (TritonError 2 ''instance state'')) \<and>
   set (calls (snd (execute setup_fails [10, 11, 12])))
     \<subseteq> {GetInstanceState, StateForModel, GetNativeMemory}"
proof -
  have "throws setup_fails [] GetInstanceState = Some (TritonError 2 ''instance state'')"
    by (simp add: setup_fails_def scenario_def)
  then show ?thesis
    using setup_failure_returns_error [of setup_fails "TritonError 2 ''instance state''" "[10, 11, 12]"]
    by blast
qed

theorem sync_before_success_responses_witness:
  "\<exists>pre' d outs pp.
     [GetInstanceState, StateForModel, GetNativeMemory,
      GetInputBatches [10, 11, 12] HostMemory, ConstructResponses [10, 11],
      GetOutputBatch [10, 11] [ResponseFor 10, ResponseFor 11] HostMemory [[4], [1]],
      Predict 1 (OutputBatch [ResponseFor 10, ResponseFor 11] [[4], [1]]) False,
      Sync (OutputBatch [ResponseFor 10, ResponseFor 11] [[4], [1]])]
       = pre' @ [Predict d (OutputBatch [ResponseFor 10, ResponseFor 11] outs) pp,
                 Sync (OutputBatch [ResponseFor 10, ResponseFor 11] outs)] \<and>
     throws all_succeed pre' (Predict d (OutputBatch [ResponseFor 10, ResponseFor 11] outs) pp) = None \<and>
     throws all_succeed (pre' @ [Predict d (OutputBatch [ResponseFor 10, ResponseFor 11] outs) pp])
       (Sync (OutputBatch [ResponseFor 10, ResponseFor 11] outs)) = None"
proof -
  have "calls (snd (execute all_succeed [10, 11, 12])) =
     [GetInstanceState, StateForModel, GetNativeMemory,
      GetInputBatches [10, 11, 12] HostMemory, ConstructResponses [10, 11],
      GetOutputBatch [10, 11] [ResponseFor 10, ResponseFor 11] HostMemory [[4], [1]],
      Predict 1 (OutputBatch [ResponseFor 10, ResponseFor 11] [[4], [1]]) False,
      Sync (OutputBatch [ResponseFor 10, ResponseFor 11] [[4], [1]])]
     @ SendResponses [ResponseFor 10, ResponseFor 11]
     # [ReportStatistics [10, 11] True 1 2 3 4, ReleaseRequests [10, 11],
        ConstructResponses [12],
        GetOutputBatch [12] [ResponseFor 12] HostMemory [[8]],
        Predict 2 (OutputBatch [ResponseFor 12] [[8]]) False,
        Sync (OutputBatch [ResponseFor 12] [[8]]),
        SendResponses [ResponseFor 12], ReportStatistics [12] True 5 6 7 8,
        ReleaseRequests [12], ReportStatisticsCount 13 0 0 9 9]"
    by (simp add: all_succeed_run)
  then show ?thesis by (rule sync_before_success_responses)
qed



theorem failure_statistics_timestamps_witness:
  "ReportStatistics [12] False 5 5 7 8 \<in> set (calls (snd (execute predict_fails [10, 11, 12]))) \<and>
   ReportStatistics [11, 12] False 0 0 5 5 \<in> set (calls (snd (execute planner_fails [10, 11, 12]))) \<and>
   clock planner_fails 0 = 0"
proof -
  have first: "ReportStatistics [12] False 5 5 7 8 \<in> set (calls (snd (execute predict_fails [10, 11, 12])))"
    by (simp add: predict_fails_run)
  have second: "calls (snd (execute planner_fails [10, 11, 12])) =
      [GetInstanceState, StateForModel, GetNativeMemory,
       GetInputBatches [10, 11, 12] HostMemory, ConstructResponses [10],
       GetOutputBatch [10] [ResponseFor 10] HostMemory [[4]],
       Predict 1 (OutputBatch [ResponseFor 10] [[4]]) False,
       Sync (OutputBatch [ResponseFor 10] [[4]]),
       SendResponses [ResponseFor 10], ReportStatistics [10] True 1 2 3 4,
       ReleaseRequests [10],
       SendResponsesError [] (TritonError 3 ''malformed input'')]
      @ SendErrorResponses [11, 12] (TritonError 3 ''malformed input'')
      # [ReportStatistics [11, 12] False 0 0 5 5, ReleaseRequests [11, 12]]"
    by (simp add: planner_fails_run)
  have third: "ReportStatistics [11, 12] False 0 0 5 5
      \<in> set [ReportStatistics [11, 12] False 0 0 5 5, ReleaseRequests [11, 12]]"
    by simp
  have fourth: "ReportStatistics [11, 12] False 0 0 5 5
      \<in> set (calls (snd (execute planner_fails [10, 11, 12])))"
    by (simp add: planner_fails_run)
  from failure_statistics_timestamps
    [where w = predict_fails and raw_requests = "[10, 11, 12]" and reqs = "[12]"
       and ?t1.0 = 5 and ?t2.0 = 5 and ?t3.0 = 7 and ?t4.0 = 8, THEN conjunct1] first
  have "(5::timestamp) = 5" by (rule mp)
  from failure_statistics_timestamps
    [where w = planner_fails and raw_requests = "[10, 11, 12]" and rem = "[11, 12]"
       and e = "TritonError 3 ''malformed input''"
       and post = "[ReportStatistics [11, 12] False 0 0 5 5, ReleaseRequests [11, 12]]"
       and reqs' = "[11, 12]" and ok = False and ?u1.0 = 0 and ?u2.0 = 0 and ?u3.0 = 5
       and ?u4.0 = 5, THEN conjunct2] second third
  have "(0::timestamp) = clock planner_fails 0" by blast
  with first fourth show ?thesis by simp
qed


section \<open>An invocation without batches\<close>

text \<open>
  C9. When the calls before planning and \<^verbatim>\<open>get_input_batches\<close> do not raise and the
  planner yields no batch, whatever the request list, the entry point returns success
  and its only call after \<^verbatim>\<open>get_input_batches\<close> reports one aggregate statistic with
  count 0, whose start and compute-start are the first clock reading of the invocation.
\<close>
theorem no_batches_reports_zero:
  assumes "setup_ok w"
    and "throws w [GetInstanceState, StateForModel, GetNativeMemory]
           (GetInputBatches raw_requests (target_memory w)) = None"
    and "planned w = []" and "plan_error w = None"
  shows "fst (execute w raw_requests) = Returned None \<and>
         calls (snd (execute w raw_requests)) =
           [GetInstanceState, StateForModel, GetNativeMemory,
            GetInputBatches raw_requests (target_memory w),
            ReportStatisticsCount 0 (clock w 0) (clock w 0) (clock w 1) (clock w 1)]"
  using assms
  by (simp add: execute_setup_ok run_batches_def ext_def planning_state_def report_guarded_eq
      split: option.splits)

theorem no_batches_reports_zero_witness:
  "fst (execute no_batches []) = Returned None \<and>
   calls (snd (execute no_batches [])) =
     [GetInstanceState, StateForModel, GetNativeMemory, GetInputBatches [] HostMemory,
      ReportStatisticsCount 0 0 0 1 1]"
proof -
  have "setup_ok no_batches"
    by (simp add: setup_ok_def no_batches_def scenario_def)
  moreover have "throws no_batches [GetInstanceState, StateForModel, GetNativeMemory]
      (GetInputBatches [] (target_memory no_batches)) = None"
    by (simp add: no_batches_def scenario_def)
  moreover have "planned no_batches = []" "plan_error no_batches = None"
    by (simp_all add: no_batches_def scenario_def)
  ultimately show ?thesis
    using no_batches_reports_zero [of no_batches "[]"]
    by (simp add: no_batches_def scenario_def)
qed

section \<open>The aggregate statistic\<close>

lemma try_batch_total:
  "total_inference_count (snd (try_batch w ms b reqs outs t s)) = total_inference_count s"
  by (simp add: try_batch_def ext_def now_def report_guarded_eq Let_def split: option.splits)

lemma catch_batch_total:
  "total_inference_count (snd (catch_batch w b reqs t e s)) = total_inference_count s"
  by (simp add: catch_batch_def ext_def now_def report_guarded_eq Let_def split: option.splits)

lemma stage_batch_total:
  "stage_batch w ms requests b s = (Inr staged, s') \<Longrightarrow>
   total_inference_count s' = total_inference_count s + sum_list (map hd (shapes b))"
  by (auto simp: stage_batch_def ext_def now_def Let_def shape_loop_Some
      split: option.splits prod.splits if_splits)

lemma process_batch_total:
  assumes "process_batch w ms requests b s = (Inr u, s')"
  shows "total_inference_count s' = total_inference_count s + sum_list (map hd (shapes b))"
proof (cases "stage_batch w ms requests b s")
  case (Pair r s1)
  show ?thesis
  proof (cases r)
    case (Inl e)
    with Pair assms show ?thesis by (simp add: process_batch_def)
  next
    case (Inr staged)
    obtain t outs reqs where staged: "staged = (t, outs, reqs)" by (cases staged)
    from Pair Inr have s1: "total_inference_count s1 =
        total_inference_count s + sum_list (map hd (shapes b))"
      by (simp add: stage_batch_total)
    obtain r' s2 where tried: "try_batch w ms b reqs outs t s1 = (r', s2)"
      by (cases "try_batch w ms b reqs outs t s1")
    with try_batch_total [of w ms b reqs outs t s1]
    have s2: "total_inference_count s2 = total_inference_count s1" by simp
    have caught: "total_inference_count s3 = total_inference_count s2"
      if "catch_batch w b reqs t e s2 = (r3, s3)" for e r3 s3
      using catch_batch_total [of w b reqs t e s2] that by simp
    from assms Pair Inr staged tried s1 s2 caught
    show ?thesis
      by (auto simp: process_batch_def split: sum.splits exc.splits)
  qed
qed

lemma batch_loop_total:
  "batch_loop w ms requests bs s = (Inr u, s') \<Longrightarrow>
   total_inference_count s' =
     total_inference_count s + sum_list (map (\<lambda>b. sum_list (map hd (shapes b))) bs)"
proof (induction bs arbitrary: s)
  case Nil
  then show ?case by (simp split: option.splits)
next
  case (Cons b bs)
  obtain r s1 where step: "process_batch w ms requests b s = (r, s1)"
    by (cases "process_batch w ms requests b s")
  with Cons.prems obtain u' where r: "r = Inr u'" by (cases r) auto
  with step have "total_inference_count s1 =
      total_inference_count s + sum_list (map hd (shapes b))"
    by (simp add: process_batch_total)
  moreover from Cons.prems step r have "batch_loop w ms requests bs s1 = (Inr u, s')" by simp
  then have "total_inference_count s' =
      total_inference_count s1 + sum_list (map (\<lambda>b. sum_list (map hd (shapes b))) bs)"
    by (rule Cons.IH)
  ultimately show ?case by (simp add: add.assoc)
qed

text \<open>
  C5, as the code has it. When the calls before planning do not raise and the batch
  loop completes without an exception reaching the planning-level handler, the entry
  point returns success and its last call reports the aggregate statistic: its count is
  the sum, modulo \<open>2\<^sup>6\<^sup>4\<close>, of the first dimensions of all input shapes of all planned
  batches, whether their compute step succeeded or failed; its start and compute-start
  are the first clock reading of the invocation, its compute-end and end are the last.
\<close>
theorem aggregate_statistic_counts_planned_rows:
  assumes "setup_ok w"
    and "run_batches w (model w) raw_requests planning_state = (Inr u, s)"
  shows "fst (execute w raw_requests) = Returned None \<and>
         calls (snd (execute w raw_requests)) =
           calls s @
           [ReportStatisticsCount
              (sum_list (map (\<lambda>b. sum_list (map hd (shapes b))) (planned w)))
              (clock w 0) (clock w 0) (clock w (ticks s)) (clock w (ticks s))] \<and>
         ticks (snd (execute w raw_requests)) = Suc (ticks s)"
proof -
  from assms(2) have "total_inference_count s =
      sum_list (map (\<lambda>b. sum_list (map hd (shapes b))) (planned w))"
    by (auto simp: run_batches_def ext_def planning_state_def split: option.splits
        dest!: batch_loop_total)
  with assms show ?thesis
    by (simp add: execute_setup_ok report_guarded_eq split: option.splits)
qed


lemma predict_fails_loop:
  "run_batches predict_fails (model predict_fails) [10, 11, 12] planning_state =
     (Inr (),
      \<lparr>calls =
         [GetInstanceState, StateForModel, GetNativeMemory,
          GetInputBatches [10, 11, 12] HostMemory, ConstructResponses [10, 11],
          GetOutputBatch [10, 11] [ResponseFor 10, ResponseFor 11] HostMemory [[4], [1]],
          Predict 1 (OutputBatch [ResponseFor 10, ResponseFor 11] [[4], [1]]) False,
          Sync (OutputBatch [ResponseFor 10, ResponseFor 11] [[4], [1]]),
          SendResponses [ResponseFor 10, ResponseFor 11],
          ReportStatistics [10, 11] True 1 2 3 4, ReleaseRequests [10, 11],
          ConstructResponses [12],
          GetOutputBatch [12] [ResponseFor 12] HostMemory [[8]],
          Predict 2 (OutputBatch [ResponseFor 12] [[8]]) False,
          SendResponsesError [ResponseFor 12] (TritonError 1 ''predict''),
          ReportStatistics [12] False 5 5 7 8, ReleaseRequests [12]],
       logs = [], ticks = 9, total_inference_count = 13, responses = [], end_request = 3\<rparr>)"
  by (simp add: run_defs predict_fails_def planning_state_def)

theorem aggregate_statistic_counts_planned_rows_witness:
  "fst (execute predict_fails [10, 11, 12]) = Returned None \<and>
   calls (snd (execute predict_fails [10, 11, 12])) =
     [GetInstanceState, StateForModel, GetNativeMemory,
      GetInputBatches [10, 11, 12] HostMemory, ConstructResponses [10, 11],
      GetOutputBatch [10, 11] [ResponseFor 10, ResponseFor 11] HostMemory [[4], [1]],
      Predict 1 (OutputBatch [ResponseFor 10, ResponseFor 11] [[4], [1]]) False,
      Sync (OutputBatch [ResponseFor 10, ResponseFor 11] [[4], [1]]),
      SendResponses [ResponseFor 10, ResponseFor 11],
      ReportStatistics [10, 11] True 1 2 3 4, ReleaseRequests [10, 11],
      ConstructResponses [12],
      GetOutputBatch [12] [ResponseFor 12] HostMemory [[8]],
      Predict 2 (OutputBatch [ResponseFor 12] [[8]]) False,
      SendResponsesError [ResponseFor 12] (TritonError 1 ''predict''),
      ReportStatistics [12] False 5 5 7 8, ReleaseRequests [12]] @
     [ReportStatisticsCount (4 + 1 + 8) 0 0 9 9] \<and>
   ticks (snd (execute predict_fails [10, 11, 12])) = 10"
proof -
  have "setup_ok predict_fails"
    by (simp add: setup_ok_def predict_fails_def scenario_def)
  from aggregate_statistic_counts_planned_rows [OF this predict_fails_loop]
  show ?thesis
    by (simp add: predict_fails_def scenario_def two_batches_def)
qed

text \<open>
  The count of the aggregate statistic is not the count of the successfully handled
  rows: when the prediction of the second batch (8 rows) fails and only the first batch
  (4 + 1 rows) succeeds, the aggregate statistic reports 13.
\<close>
theorem aggregate_count_includes_failed_batch:
  "fst (execute predict_fails [10, 11, 12]) = Returned None \<and>
   last (calls (snd (execute predict_fails [10, 11, 12]))) = ReportStatisticsCount 13 0 0 9 9 \<and>
   SendResponsesError [ResponseFor 12] (TritonError 1 ''predict'')
     \<in> set (calls (snd (execute predict_fails [10, 11, 12]))) \<and>
   SendResponses [ResponseFor 12] \<notin> set (calls (snd (execute predict_fails [10, 11, 12]))) \<and>
   shapes (planned predict_fails ! 0) = [[4, 3], [1, 3]] \<and>
   shapes (planned predict_fails ! 1) = [[8, 3]]"
proof -
  have "shapes (planned predict_fails ! 0) = [[4, 3], [1, 3]]"
    "shapes (planned predict_fails ! 1) = [[8, 3]]"
    by (simp_all add: predict_fails_def scenario_def two_batches_def)
  then show ?thesis by (simp add: predict_fails_run)
qed


section \<open>Routing and release when sending and releasing do not raise\<close>

lemma routing_totalD: "routing_total w \<Longrightarrow> is_routing c \<Longrightarrow> throws w h c = None"
  by (simp add: routing_total_def)

lemma responded_append [simp]: "responded (cs @ cs') = responded cs @ responded cs'"
  by (simp add: responded_def)

lemma released_append [simp]: "released (cs @ cs') = released cs @ released cs'"
  by (simp add: released_def)

lemma responded_Cons [simp]: "responded (c # cs) = responded_by c @ responded cs"
  by (simp add: responded_def)

lemma released_Cons [simp]: "released (c # cs) = released_by c @ released cs"
  by (simp add: released_def)

lemma responded_Nil [simp]: "responded [] = []"
  by (simp add: responded_def)

lemma released_Nil [simp]: "released [] = []"
  by (simp add: released_def)

lemma request_of_ResponseFor [simp]: "map request_of (construct_responses reqs) = reqs"
  by (simp add: construct_responses_def comp_def)

lemma shape_loop_None: "shape_loop ms shs n acc = None \<longleftrightarrow> [] \<in> set shs"
  by (induction shs arbitrary: n acc) (auto split: list.splits)

lemma stage_batch_Inr:
  assumes "stage_batch w ms requests b s = (Inr (t, outs, reqs), s')"
  shows "reqs = take (snd (extent b) - fst (extent b)) (drop (fst (extent b)) requests) \<and>
         t = clock w (ticks s) \<and>
         responses s' = construct_responses reqs \<and>
         calls s' = calls s @ [ConstructResponses reqs] \<and>
         end_request s' = end_request s"
  using assms
  by (auto simp: stage_batch_def ext_def now_def Let_def
      split: option.splits prod.splits if_splits)

lemma stage_batch_Inl:
  assumes "stage_batch w ms requests b s = (Inl x, s')"
  shows "responses s' = responses s \<and> end_request s' = end_request s \<and>
         responded (calls s') = responded (calls s) \<and>
         released (calls s') = released (calls s) \<and>
         (x = UndefinedBehaviour \<longrightarrow> \<not> batch_ok (length requests) b)"
  using assms
  by (auto simp: stage_batch_def ext_def now_def Let_def batch_ok_def shape_loop_None
      split: option.splits prod.splits if_splits)


lemma try_batch_Inr:
  assumes "try_batch w ms b reqs outs t s = (Inr u, s')"
  shows "responded (calls s') = responded (calls s) @ map request_of (responses s) \<and>
         released (calls s') = released (calls s) @ reqs \<and>
         responses s' = [] \<and> end_request s' = snd (extent b)"
  using assms
  by (auto simp: try_batch_def ext_def now_def report_guarded_eq Let_def
      split: option.splits)

lemma try_batch_Inl:
  assumes "routing_total w" and "try_batch w ms b reqs outs t s = (Inl x, s')"
  shows "\<exists>e. x = TritonException e \<and>
           responses s' = responses s \<and> end_request s' = end_request s \<and>
           responded (calls s') = responded (calls s) \<and>
           released (calls s') = released (calls s) \<and>
           is_compute (last (calls s')) \<and>
           throws w (butlast (calls s')) (last (calls s')) = Some e"
  using assms
  by (auto simp: try_batch_def ext_def now_def report_guarded_eq Let_def routing_totalD
      butlast_append split: option.splits)

lemma catch_batch_routing:
  assumes "routing_total w"
  shows "\<exists>s'. catch_batch w b reqs t e s = (Inr (), s') \<and>
           calls s' = calls s @
             [SendResponsesError (responses s) e,
              ReportStatistics reqs False t t (clock w (ticks s)) (clock w (Suc (ticks s))),
              ReleaseRequests reqs] \<and>
           responses s' = [] \<and> end_request s' = snd (extent b)"
  using assms
  by (simp add: catch_batch_def ext_def now_def report_guarded_eq Let_def routing_totalD
      split: option.splits)


lemma process_batch_routing:
  assumes "routing_total w"
  shows "case process_batch w ms requests b s of
           (Inr u, s') \<Rightarrow>
             responded (calls s') = responded (calls s) @
               take (snd (extent b) - fst (extent b)) (drop (fst (extent b)) requests) \<and>
             released (calls s') = released (calls s) @
               take (snd (extent b) - fst (extent b)) (drop (fst (extent b)) requests) \<and>
             responses s' = [] \<and> end_request s' = snd (extent b)
         | (Inl x, s') \<Rightarrow>
             responded (calls s') = responded (calls s) \<and>
             released (calls s') = released (calls s) \<and>
             responses s' = responses s \<and> end_request s' = end_request s \<and>
             (x = UndefinedBehaviour \<longrightarrow> \<not> batch_ok (length requests) b)"
proof (cases "stage_batch w ms requests b s")
  case (Pair r s1)
  show ?thesis
  proof (cases r)
    case (Inl x)
    with Pair stage_batch_Inl [of w ms requests b s x s1] show ?thesis
      by (simp add: process_batch_def)
  next
    case (Inr staged)
    obtain t outs reqs where staged: "staged = (t, outs, reqs)" by (cases staged)
    note st = stage_batch_Inr [OF Pair [unfolded Inr staged]]
    obtain r' s2 where tried: "try_batch w ms b reqs outs t s1 = (r', s2)"
      by (cases "try_batch w ms b reqs outs t s1")
    show ?thesis
    proof (cases r')
      case (Inr u)
      with tried try_batch_Inr [of w ms b reqs outs t s1 u s2] st Pair \<open>r = Inr staged\<close> staged
      show ?thesis by (simp add: process_batch_def)
    next
      case (Inl x)
      from try_batch_Inl [OF assms tried [unfolded Inl]]
      obtain e where x: "x = TritonException e"
        and s2: "responses s2 = responses s1" "responded (calls s2) = responded (calls s1)"
          "released (calls s2) = released (calls s1)"
        by blast
      from catch_batch_routing [OF assms, of b reqs t e s2]
      obtain s3 where "catch_batch w b reqs t e s2 = (Inr (), s3)"
        "calls s3 = calls s2 @
             [SendResponsesError (responses s2) e,
              ReportStatistics reqs False t t (clock w (ticks s2)) (clock w (Suc (ticks s2))),
              ReleaseRequests reqs]"
        "responses s3 = []" "end_request s3 = snd (extent b)"
        by blast
      with tried Inl x s2 st Pair \<open>r = Inr staged\<close> staged
      show ?thesis by (simp add: process_batch_def)
    qed
  qed
qed

lemma batch_loop_responses:
  assumes "routing_total w" and "responses s = []"
  shows "responses (snd (batch_loop w ms requests bs s)) = []"
  using assms(2)
proof (induction bs arbitrary: s)
  case Nil
  then show ?case by (simp split: option.splits)
next
  case (Cons b bs)
  obtain r s1 where step: "process_batch w ms requests b s = (r, s1)"
    by (cases "process_batch w ms requests b s")
  with process_batch_routing [OF assms(1), where ms = ms and requests = requests and b = b and s = s] Cons.prems
  have "responses s1 = []" by (cases r) auto
  with step Cons.IH [of s1] show ?case by (cases r) auto
qed

lemma batch_loop_routing:
  assumes "routing_total w" and "\<forall>b \<in> set bs. batch_ok (length requests) b"
    and "contiguous (end_request s) bs"
    and "responded (calls s) = take (end_request s) requests"
    and "released (calls s) = take (end_request s) requests"
  shows "case batch_loop w ms requests bs s of
           (Inr u, s') \<Rightarrow>
             plan_error w = None \<and> end_request s' = plan_end (end_request s) bs \<and>
             responded (calls s') = take (end_request s') requests \<and>
             released (calls s') = take (end_request s') requests
         | (Inl x, s') \<Rightarrow>
             x \<noteq> UndefinedBehaviour \<and>
             responded (calls s') = take (end_request s') requests \<and>
             released (calls s') = take (end_request s') requests"
  using assms(2-)
proof (induction bs arbitrary: s)
  case Nil
  then show ?case by (simp split: option.splits)
next
  case (Cons b bs)
  from Cons.prems have ok: "batch_ok (length requests) b"
    and start: "fst (extent b) = end_request s" by simp_all
  then have slice: "take (end_request s) requests @
      take (snd (extent b) - fst (extent b)) (drop (fst (extent b)) requests)
      = take (snd (extent b)) requests"
    using take_add [of "end_request s" "snd (extent b) - end_request s" requests]
    by (simp add: batch_ok_def)
  obtain r s1 where step: "process_batch w ms requests b s = (r, s1)"
    by (cases "process_batch w ms requests b s")
  note pb = process_batch_routing [OF assms(1), where ms = ms and requests = requests and b = b and s = s, unfolded step]
  show ?case
  proof (cases r)
    case (Inl x)
    with pb step ok Cons.prems show ?thesis by simp
  next
    case (Inr u)
    with pb slice Cons.prems have "end_request s1 = snd (extent b)"
      "responded (calls s1) = take (end_request s1) requests"
      "released (calls s1) = take (end_request s1) requests"
      by simp_all
    with Cons.prems have "case batch_loop w ms requests bs s1 of
           (Inr u, s') \<Rightarrow>
             plan_error w = None \<and> end_request s' = plan_end (end_request s1) bs \<and>
             responded (calls s') = take (end_request s') requests \<and>
             released (calls s') = take (end_request s') requests
         | (Inl x, s') \<Rightarrow>
             x \<noteq> UndefinedBehaviour \<and>
             responded (calls s') = take (end_request s') requests \<and>
             released (calls s') = take (end_request s') requests"
      by (intro Cons.IH) simp_all
    with step Inr \<open>end_request s1 = snd (extent b)\<close> show ?thesis
      by (auto split: prod.splits sum.splits)
  qed
qed


lemma run_batches_responses:
  assumes "routing_total w" and "responses s = []"
  shows "responses (snd (run_batches w ms requests s)) = []"
  using assms
    batch_loop_responses [OF assms(1),
      of "s\<lparr>calls := calls s @ [GetInputBatches requests (target_memory w)]\<rparr>"
      ms requests "planned w"]
  by (simp add: run_batches_def ext_def split: option.splits)

lemma abort_remaining_routing:
  assumes "routing_total w"
  shows "\<exists>s'. abort_remaining w raw t0 e s = (Inr (Some e), s') \<and>
           calls s' = calls s @
             [SendResponsesError (responses s) e,
              SendErrorResponses (drop (end_request s) raw) e,
              ReportStatistics (drop (end_request s) raw) False t0 t0
                (clock w (ticks s)) (clock w (ticks s)),
              ReleaseRequests (drop (end_request s) raw)]"
  using assms
  by (simp add: abort_remaining_def ext_def now_def report_guarded_eq Let_def routing_totalD
      split: option.splits)

section \<open>Planning failure\<close>


section \<open>Every request is answered and released once\<close>

text \<open>
  C1, as the code has it. Let the calls before planning succeed, sending and releasing
  not raise, and the planner keep its contract (the extents of its batches partition
  the request range, or a prefix of it when the planner fails). Then the requests that
  receive a terminal response, listed in the order of the sends, are exactly the
  requests handed in, each once, and so are the requests released; the entry point
  returns, on every path: normal completion, compute failures, planning failure.
\<close>
theorem every_request_answered_and_released_once:
  assumes "setup_ok w" and "routing_total w" and "wf_plan w raw_requests"
  shows "responded (calls (snd (execute w raw_requests))) = raw_requests \<and>
         released (calls (snd (execute w raw_requests))) = raw_requests \<and>
         fst (execute w raw_requests) \<noteq> Undefined"
proof -
  let ?s1 = "planning_state\<lparr>calls := calls planning_state @
      [GetInputBatches raw_requests (target_memory w)]\<rparr>"
  obtain r s where run: "run_batches w (model w) raw_requests planning_state = (r, s)"
    by (cases "run_batches w (model w) raw_requests planning_state")
  have resp: "responses s = []"
    using run_batches_responses [OF assms(2), of planning_state "model w" raw_requests] run
    by (simp add: planning_state_def)
  have loop: "case batch_loop w (model w) raw_requests (planned w) ?s1 of
           (Inr u, s') \<Rightarrow>
             plan_error w = None \<and> end_request s' = plan_end (end_request ?s1) (planned w) \<and>
             responded (calls s') = take (end_request s') raw_requests \<and>
             released (calls s') = take (end_request s') raw_requests
         | (Inl x, s') \<Rightarrow>
             x \<noteq> UndefinedBehaviour \<and>
             responded (calls s') = take (end_request s') raw_requests \<and>
             released (calls s') = take (end_request s') raw_requests"
    using assms(3)
    by (intro batch_loop_routing [OF assms(2)]) (simp_all add: wf_plan_def planning_state_def)
  show ?thesis
  proof (cases r)
    case (Inr u)
    with run loop assms(3) have "responded (calls s) = raw_requests"
      "released (calls s) = raw_requests"
      by (auto simp: run_batches_def ext_def wf_plan_def planning_state_def
          split: option.splits)
    with run Inr assms(1) show ?thesis
      by (simp add: execute_setup_ok report_guarded_eq split: option.splits)
  next
    case (Inl x)
    with run loop have "x \<noteq> UndefinedBehaviour"
      "responded (calls s) = take (end_request s) raw_requests"
      "released (calls s) = take (end_request s) raw_requests"
      by (auto simp: run_batches_def ext_def planning_state_def split: option.splits)
    then obtain e where x: "x = TritonException e"
      and s: "responded (calls s) = take (end_request s) raw_requests"
             "released (calls s) = take (end_request s) raw_requests"
      by (cases x) auto
    from abort_remaining_routing [OF assms(2), of raw_requests "clock w 0" e s] resp s
      run Inl x assms(1)
    show ?thesis by (auto simp: execute_setup_ok)
  qed
qed


section \<open>Compute failure\<close>






section \<open>Planning failure, routing and compute failure on the scenarios\<close>



lemma predict_fails_routing: "routing_total predict_fails"
  by (auto simp: routing_total_def predict_fails_def scenario_def split: call.splits)

theorem every_request_answered_and_released_once_witness:
  "responded (calls (snd (execute predict_fails [10, 11, 12]))) = [10, 11, 12] \<and>
   released (calls (snd (execute predict_fails [10, 11, 12]))) = [10, 11, 12] \<and>
   fst (execute predict_fails [10, 11, 12]) \<noteq> Undefined"
proof -
  have "setup_ok predict_fails"
    by (simp add: setup_ok_def predict_fails_def scenario_def)
  moreover have "wf_plan predict_fails [10, 11, 12]"
    by (simp add: wf_plan_def batch_ok_def predict_fails_def scenario_def two_batches_def)
  ultimately show ?thesis
    using every_request_answered_and_released_once [OF _ predict_fails_routing] by blast
qed

text \<open>
  When obtaining the instance state raises, the entry point returns the error and no
  request receives a response or is released.
\<close>
theorem setup_failure_answers_nobody:
  "fst (execute setup_fails [10, 11, 12]) = Returned (Some (TritonError 2 ''instance state'')) \<and>
   responded (calls (snd (execute setup_fails [10, 11, 12]))) = [] \<and>
   released (calls (snd (execute setup_fails [10, 11, 12]))) = []"
  by (simp add: setup_fails_run)





section \<open>Failing statistics\<close>

lemma try_batch_sim:
  assumes "same_but_statistics w w'" and "same_but_logs s s'"
  shows "fst (try_batch w' ms b reqs outs t s') = fst (try_batch w ms b reqs outs t s) \<and>
         same_but_logs (snd (try_batch w ms b reqs outs t s)) (snd (try_batch w' ms b reqs outs t s'))"
  using assms
  by (simp add: try_batch_def ext_def now_def report_guarded_eq Let_def same_but_statistics_def
      same_but_logs_def split: option.splits)

lemma catch_batch_sim:
  assumes "same_but_statistics w w'" and "same_but_logs s s'"
  shows "fst (catch_batch w' b reqs t e s') = fst (catch_batch w b reqs t e s) \<and>
         same_but_logs (snd (catch_batch w b reqs t e s)) (snd (catch_batch w' b reqs t e s'))"
  using assms
  by (simp add: catch_batch_def ext_def now_def report_guarded_eq Let_def same_but_statistics_def
      same_but_logs_def split: option.splits)

lemma stage_batch_sim:
  assumes "same_but_statistics w w'" and "same_but_logs s s'"
  shows "fst (stage_batch w' ms requests b s') = fst (stage_batch w ms requests b s) \<and>
         same_but_logs (snd (stage_batch w ms requests b s)) (snd (stage_batch w' ms requests b s'))"
  using assms
  by (simp add: stage_batch_def ext_def now_def Let_def same_but_statistics_def
      same_but_logs_def split: option.splits prod.splits)

lemma abort_remaining_sim:
  assumes "same_but_statistics w w'" and "same_but_logs s s'"
  shows "fst (abort_remaining w' raw t0 e s') = fst (abort_remaining w raw t0 e s) \<and>
         same_but_logs (snd (abort_remaining w raw t0 e s)) (snd (abort_remaining w' raw t0 e s'))"
  using assms
  by (simp add: abort_remaining_def ext_def now_def report_guarded_eq Let_def
      same_but_statistics_def same_but_logs_def split: option.splits)


lemma process_batch_sim:
  assumes "same_but_statistics w w'" and "same_but_logs s s'"
  shows "fst (process_batch w' ms requests b s') = fst (process_batch w ms requests b s) \<and>
         same_but_logs (snd (process_batch w ms requests b s)) (snd (process_batch w' ms requests b s'))"
proof -
  obtain r s1 where st: "stage_batch w ms requests b s = (r, s1)"
    by (cases "stage_batch w ms requests b s")
  obtain r' s1' where st': "stage_batch w' ms requests b s' = (r', s1')"
    by (cases "stage_batch w' ms requests b s'")
  from stage_batch_sim [OF assms, of ms requests b] st st'
  have r': "r' = r" and s1: "same_but_logs s1 s1'" by simp_all
  show ?thesis
  proof (cases r)
    case (Inl x)
    with st st' r' s1 show ?thesis by (simp add: process_batch_def)
  next
    case (Inr staged)
    obtain t outs reqs where staged: "staged = (t, outs, reqs)" by (cases staged)
    obtain q s2 where tr: "try_batch w ms b reqs outs t s1 = (q, s2)"
      by (cases "try_batch w ms b reqs outs t s1")
    obtain q' s2' where tr': "try_batch w' ms b reqs outs t s1' = (q', s2')"
      by (cases "try_batch w' ms b reqs outs t s1'")
    from try_batch_sim [OF assms(1) s1, of ms b reqs outs t] tr tr'
    have q': "q' = q" and s2: "same_but_logs s2 s2'" by simp_all
    from catch_batch_sim [OF assms(1) s2, of b reqs t]
    have "fst (catch_batch w' b reqs t e s2') = fst (catch_batch w b reqs t e s2) \<and>
          same_but_logs (snd (catch_batch w b reqs t e s2)) (snd (catch_batch w' b reqs t e s2'))"
      for e .
    with st st' r' Inr staged tr tr' q' s2 show ?thesis
      by (simp add: process_batch_def split: sum.splits exc.splits)
  qed
qed

lemma batch_loop_sim:
  assumes "same_but_statistics w w'" and "same_but_logs s s'"
  shows "fst (batch_loop w' ms requests bs s') = fst (batch_loop w ms requests bs s) \<and>
         same_but_logs (snd (batch_loop w ms requests bs s)) (snd (batch_loop w' ms requests bs s'))"
  using assms(2)
proof (induction bs arbitrary: s s')
  case Nil
  with assms(1) show ?case by (simp add: same_but_statistics_def split: option.splits)
next
  case (Cons b bs)
  obtain r s1 where pb: "process_batch w ms requests b s = (r, s1)"
    by (cases "process_batch w ms requests b s")
  obtain r' s1' where pb': "process_batch w' ms requests b s' = (r', s1')"
    by (cases "process_batch w' ms requests b s'")
  from process_batch_sim [OF assms(1) Cons.prems, of ms requests b] pb pb'
  have "r' = r" and "same_but_logs s1 s1'" by simp_all
  with pb pb' Cons.IH [of s1 s1'] show ?case by (cases r) simp_all
qed

lemma run_batches_sim:
  assumes "same_but_statistics w w'" and "same_but_logs s s'"
  shows "fst (run_batches w' ms requests s') = fst (run_batches w ms requests s) \<and>
         same_but_logs (snd (run_batches w ms requests s)) (snd (run_batches w' ms requests s'))"
proof -
  let ?c = "GetInputBatches requests (target_memory w)"
  from assms have "same_but_logs (s\<lparr>calls := calls s @ [?c]\<rparr>) (s'\<lparr>calls := calls s' @ [?c]\<rparr>)"
    by (simp add: same_but_logs_def)
  from batch_loop_sim [OF assms(1) this, of ms requests "planned w"] assms
  show ?thesis
    by (simp add: run_batches_def ext_def same_but_statistics_def same_but_logs_def
        split: option.splits)
qed

lemma execute_sim:
  assumes "same_but_statistics w w'"
  shows "fst (execute w' raw) = fst (execute w raw) \<and>
         same_but_logs (snd (execute w raw)) (snd (execute w' raw))"
proof (cases "setup_ok w")
  case False
  with assms have "\<not> setup_ok w'" by (simp add: setup_ok_def same_but_statistics_def)
  with False assms show ?thesis
    by (auto simp: execute_def execute_body_def now_def init_state_def ext_def setup_ok_def
        same_but_statistics_def same_but_logs_def split: option.splits)
next
  case True
  with assms have ok': "setup_ok w'" by (simp add: setup_ok_def same_but_statistics_def)
  from assms have same: "model w' = model w" "clock w' = clock w"
    by (simp_all add: same_but_statistics_def)
  obtain r s where run: "run_batches w (model w) raw planning_state = (r, s)"
    by (cases "run_batches w (model w) raw planning_state")
  obtain r' s' where run': "run_batches w' (model w) raw planning_state = (r', s')"
    by (cases "run_batches w' (model w) raw planning_state")
  have "same_but_logs planning_state planning_state" by (simp add: same_but_logs_def)
  from run_batches_sim [OF assms this, of "model w" raw] run run'
  have r': "r' = r" and s': "same_but_logs s s'" by simp_all
  show ?thesis
  proof (cases r)
    case (Inr u)
    with True ok' same run run' r' s' show ?thesis
      by (simp add: execute_setup_ok report_guarded_eq same_but_logs_def split: option.splits)
  next
    case (Inl x)
    show ?thesis
    proof (cases x)
      case UndefinedBehaviour
      with True ok' same run run' r' s' Inl show ?thesis by (simp add: execute_setup_ok)
    next
      case (TritonException e)
      obtain q t where ab: "abort_remaining w raw (clock w 0) e s = (q, t)"
        by (cases "abort_remaining w raw (clock w 0) e s")
      obtain q' t' where ab': "abort_remaining w' raw (clock w 0) e s' = (q', t')"
        by (cases "abort_remaining w' raw (clock w 0) e s'")
      from abort_remaining_sim [OF assms s', of raw "clock w 0" e] ab ab'
      have "q' = q" "same_but_logs t t'" by simp_all
      with True ok' same run run' r' Inl TritonException ab ab' show ?thesis
        by (simp add: execute_setup_ok split: sum.splits exc.splits)
    qed
  qed
qed


lemma statistics_errors_append:
  "statistics_errors w h (seg @ seg') =
     statistics_errors w h seg @ statistics_errors w (h @ seg) seg'"
  by (induction seg arbitrary: h) simp_all

lemma logged_refl: "logged w s s"
  by (simp add: logged_def)

lemma logged_trans: "logged w s s' \<Longrightarrow> logged w s' s'' \<Longrightarrow> logged w s s''"
  by (auto simp: logged_def statistics_errors_append)

lemma try_batch_logged: "logged w s (snd (try_batch w ms b reqs outs t s))"
  by (simp add: try_batch_def ext_def now_def report_guarded_eq Let_def logged_def
      split: option.splits)

lemma catch_batch_logged: "logged w s (snd (catch_batch w b reqs t e s))"
  by (simp add: catch_batch_def ext_def now_def report_guarded_eq Let_def logged_def
      split: option.splits)

lemma stage_batch_logged: "logged w s (snd (stage_batch w ms requests b s))"
  by (simp add: stage_batch_def ext_def now_def Let_def logged_def
      split: option.splits prod.splits)

lemma abort_remaining_logged: "logged w s (snd (abort_remaining w raw t0 e s))"
  by (simp add: abort_remaining_def ext_def now_def report_guarded_eq Let_def logged_def
      split: option.splits)

lemma process_batch_logged: "logged w s (snd (process_batch w ms requests b s))"
proof -
  obtain r s1 where st: "stage_batch w ms requests b s = (r, s1)"
    by (cases "stage_batch w ms requests b s")
  with stage_batch_logged [of w s ms requests b] have s1: "logged w s s1" by simp
  show ?thesis
  proof (cases r)
    case (Inl x)
    with st s1 show ?thesis by (simp add: process_batch_def)
  next
    case (Inr staged)
    obtain t outs reqs where staged: "staged = (t, outs, reqs)" by (cases staged)
    obtain q s2 where tr: "try_batch w ms b reqs outs t s1 = (q, s2)"
      by (cases "try_batch w ms b reqs outs t s1")
    with try_batch_logged [of w s1 ms b reqs outs t] s1 have s2: "logged w s s2"
      by (auto intro: logged_trans)
    from s2 catch_batch_logged [of w s2 b reqs t]
    have "logged w s (snd (catch_batch w b reqs t e s2))" for e
      by (rule logged_trans)
    with st Inr staged tr s2 show ?thesis
      by (simp add: process_batch_def split: sum.splits exc.splits)
  qed
qed

lemma batch_loop_logged: "logged w s (snd (batch_loop w ms requests bs s))"
proof (induction bs arbitrary: s)
  case Nil
  show ?case by (simp add: logged_refl split: option.splits)
next
  case (Cons b bs)
  obtain r s1 where pb: "process_batch w ms requests b s = (r, s1)"
    by (cases "process_batch w ms requests b s")
  with process_batch_logged [of w s ms requests b] have "logged w s s1" by simp
  with pb Cons.IH [of s1] show ?case
    by (cases r) (auto intro: logged_trans)
qed

lemma run_batches_logged: "logged w s (snd (run_batches w ms requests s))"
proof -
  let ?s1 = "s\<lparr>calls := calls s @ [GetInputBatches requests (target_memory w)]\<rparr>"
  have "logged w s ?s1" by (simp add: logged_def)
  moreover have "logged w ?s1 (snd (batch_loop w ms requests (planned w) ?s1))"
    by (rule batch_loop_logged)
  ultimately have "logged w s (snd (batch_loop w ms requests (planned w) ?s1))"
    by (rule logged_trans)
  with \<open>logged w s ?s1\<close> show ?thesis
    by (simp add: run_batches_def ext_def split: option.splits)
qed

lemma execute_logged:
  "logs (snd (execute w raw)) = statistics_errors w [] (calls (snd (execute w raw)))"
proof (cases "setup_ok w")
  case False
  then show ?thesis
    by (auto simp: execute_def execute_body_def now_def init_state_def ext_def setup_ok_def
        split: option.splits)
next
  case True
  have start: "logged w init_state planning_state"
    by (simp add: logged_def init_state_def planning_state_def)
  obtain r s where run: "run_batches w (model w) raw planning_state = (r, s)"
    by (cases "run_batches w (model w) raw planning_state")
  with run_batches_logged [of w planning_state "model w" raw] start
  have s: "logged w init_state s" by (auto intro: logged_trans)
  have "logged w init_state (snd (execute w raw))"
  proof (cases r)
    case (Inr u)
    let ?c = "ReportStatisticsCount (total_inference_count s) (clock w 0) (clock w 0)
                (clock w (ticks s)) (clock w (ticks s))"
    have "logged w s (report_guarded w ?c (s\<lparr>ticks := Suc (ticks s)\<rparr>))"
      by (simp add: report_guarded_eq logged_def split: option.splits)
    with s have "logged w init_state (report_guarded w ?c (s\<lparr>ticks := Suc (ticks s)\<rparr>))"
      by (rule logged_trans)
    with True run Inr show ?thesis by (simp add: execute_setup_ok)
  next
    case (Inl x)
    show ?thesis
    proof (cases x)
      case UndefinedBehaviour
      with True run Inl s show ?thesis by (simp add: execute_setup_ok)
    next
      case (TritonException e)
      from s abort_remaining_logged [of w s raw "clock w 0" e]
      have "logged w init_state (snd (abort_remaining w raw (clock w 0) e s))"
        by (rule logged_trans)
      with True run Inl TritonException show ?thesis
        by (auto simp: execute_setup_ok split: prod.splits sum.splits exc.splits)
    qed
  qed
  then show ?thesis by (simp add: logged_def init_state_def)
qed

text \<open>
  C6. Two environments that differ at most in whether reporting statistics raises give
  the same return value and the same trace of helper calls, hence the same responses
  and releases. The log of an invocation holds exactly the messages of the statistics
  calls that raised, in order: each such failure was caught and logged.
\<close>
theorem statistics_failures_are_logged_only:
  assumes "same_but_statistics w w'"
  shows "fst (execute w' raw_requests) = fst (execute w raw_requests) \<and>
         calls (snd (execute w' raw_requests)) = calls (snd (execute w raw_requests)) \<and>
         logs (snd (execute w raw_requests)) =
           statistics_errors w [] (calls (snd (execute w raw_requests)))"
  using execute_sim [OF assms, of raw_requests] execute_logged [of w raw_requests]
  by (simp add: same_but_logs_def)

theorem statistics_failures_are_logged_only_witness:
  "fst (execute statistics_fail [10, 11, 12]) = fst (execute all_succeed [10, 11, 12]) \<and>
   calls (snd (execute statistics_fail [10, 11, 12])) = calls (snd (execute all_succeed [10, 11, 12])) \<and>
   logs (snd (execute all_succeed [10, 11, 12])) = [] \<and>
   logs (snd (execute statistics_fail [10, 11, 12])) = [''statistics'', ''statistics'', ''statistics'']"
proof -
  have "same_but_statistics all_succeed statistics_fail"
    by (simp add: same_but_statistics_def all_succeed_def statistics_fail_def scenario_def)
  from statistics_failures_are_logged_only [OF this, of "[10, 11, 12]"]
  show ?thesis by (simp add: all_succeed_run statistics_fail_run)
qed

end
